theory Spec2Isabelle
  imports Complex_Main "HOL-Library.AList"
begin

section \<open>JavaScript values\<close>

text \<open>
  The store receives reports of any shape, so a value is modelled as the program sees it:
  \<open>undefined\<close>, \<open>null\<close>, a boolean, a number, a string, an array or an object
  (a list of properties, looked up by name). Numbers are exact rationals together with
  \<open>NaN\<close> and the two infinities; rounding and the sign of zero are not represented.
  Values are compared structurally, which is how a \<open>Map\<close> compares keys that are
  primitives (strings in both feed formats); the identity of objects is not represented.
  An object is a plain object of data: its prototype is \<open>Object.prototype\<close> and none of
  its properties is a function. A string is a list of characters; an index into it reads
  the character at that place, as for a string of ASCII characters.
\<close>

datatype jsnum = NaN | PosInf | NegInf | Fin rat

datatype jsval =
    JUndefined
  | JNull
  | JBool bool
  | JNum jsnum
  | JStr string
  | JArr "jsval list"
  | JObj "(string \<times> jsval) list"

text \<open>
  What the program can throw: a TypeError of the language, and whatever the map widget
  throws when it rejects a call.
\<close>

datatype js_error = TypeError | WidgetError

text \<open>Truthiness, as \<open>!v\<close>, \<open>a || b\<close> and \<open>if (v)\<close> test it.\<close>

fun truthy :: "jsval \<Rightarrow> bool" where
  "truthy JUndefined = False"
| "truthy JNull = False"
| "truthy (JBool b) = b"
| "truthy (JNum n) = (n \<noteq> NaN \<and> n \<noteq> Fin 0)"
| "truthy (JStr s) = (s \<noteq> [])"
| "truthy (JArr xs) = True"
| "truthy (JObj kvs) = True"

text \<open>\<open>a || b\<close> on values both already computed.\<close>

definition js_or :: "jsval \<Rightarrow> jsval \<Rightarrow> jsval" where
  "js_or a b = (if truthy a then a else b)"

fun typeof :: "jsval \<Rightarrow> string" where
  "typeof JUndefined = ''undefined''"
| "typeof JNull = ''object''"
| "typeof (JBool b) = ''boolean''"
| "typeof (JNum n) = ''number''"
| "typeof (JStr s) = ''string''"
| "typeof (JArr xs) = ''object''"
| "typeof (JObj kvs) = ''object''"

definition nullish :: "jsval \<Rightarrow> bool" where
  "nullish v = (v = JUndefined \<or> v = JNull)"

text \<open>
  Reading a property, for the property names this program reads (none of them is a
  property of a string, a number, a boolean or an array): the property of an object,
  \<open>undefined\<close> on everything else. This is \<open>v?.p\<close> on any value, and \<open>v.p\<close> on a
  value that is neither \<open>undefined\<close> nor \<open>null\<close>; on those two \<open>v.p\<close> throws a
  TypeError, which the model writes out wherever the source reads that way.
\<close>

fun js_get :: "jsval \<Rightarrow> string \<Rightarrow> jsval" where
  "js_get (JObj kvs) p = (case map_of kvs p of Some v \<Rightarrow> v | None \<Rightarrow> JUndefined)"
| "js_get v p = JUndefined"

text \<open>
  Conversion of a value to a primitive, as a template literal \<open>`${v}`\<close> and
  \<open>Math.round(v)\<close> perform it. A primitive converts. An object converts through
  \<open>Object.prototype.toString\<close> unless it has a property \<open>toString\<close> of its own, which
  for data is never a function: then neither \<open>toString\<close> nor \<open>valueOf\<close> yields a
  primitive and the conversion throws a TypeError. An array converts through \<open>join\<close>,
  which converts every element.
\<close>

fun convertible :: "jsval \<Rightarrow> bool" where
  "convertible (JObj kvs) = (map_of kvs ''toString'' = None)"
| "convertible (JArr xs) = (\<forall>x \<in> set xs. convertible x)"
| "convertible v = True"

text \<open>\<open>===\<close>: structural equality, except that \<open>NaN\<close> equals nothing.\<close>

definition strict_eq :: "jsval \<Rightarrow> jsval \<Rightarrow> bool" where
  "strict_eq a b = (a = b \<and> a \<noteq> JNum NaN)"

definition startsWith :: "string \<Rightarrow> string \<Rightarrow> bool" where
  "startsWith s p = (take (length p) s = p)"

section \<open>Classification\<close>

text \<open>
  \<^verbatim>\<open>
  static getColor(registration) {
    if (!registration || typeof registration !== 'string') { return 'red'; }
    return registration.startsWith('B') ? 'green' : 'red';
  }
  \<close>
\<close>

definition getColor :: "jsval \<Rightarrow> jsval" where
  "getColor registration =
     (if \<not> truthy registration \<or> typeof registration \<noteq> ''string'' then JStr ''red''
      else (case registration of
              JStr s \<Rightarrow> if startsWith s ''B'' then JStr ''green'' else JStr ''red''
            | _ \<Rightarrow> JStr ''red''))"

section \<open>The drone store\<close>

text \<open>
  An entity is the object literal \<open>droneData\<close> of \<open>updateDrones\<close>. Its three clock
  fields only ever hold readings of \<open>Date.now()\<close> and differences of them, so they are
  integers; every other field holds whatever the report supplied.
\<close>

record drone_data =
  drone_id :: jsval
  name :: jsval
  status :: jsval
  color :: jsval
  position :: jsval
  latitude :: jsval
  longitude :: jsval
  altitude :: jsval
  yaw :: jsval
  speed :: jsval
  battery :: jsval
  signal :: jsval
  lastSeen :: int
  firstSeen :: int
  flightTime :: int
  lastUpdate :: jsval

record path_point =
  coordinates :: "jsval list"
  timestamp :: int

text \<open>
  A \<open>Map\<close> keeps its keys in insertion order and \<open>set\<close> on a present key replaces the
  value in place: an association list with \<open>map_of\<close> for \<open>get\<close> and \<open>AList.update\<close>
  for \<open>set\<close>.
\<close>

type_synonym drone_map = "(jsval \<times> drone_data) list"
type_synonym path_map = "(jsval \<times> path_point list) list"

record store =
  drones :: drone_map
  dronePaths :: path_map
  selectedDroneId :: jsval
  isConnected :: jsval
  store_lastUpdate :: "int option"

definition initial_store :: store where
  "initial_store =
     \<lparr>drones = [], dronePaths = [], selectedDroneId = JNull, isConnected = JBool False,
      store_lastUpdate = None\<rparr>"

text \<open>
  The store library's \<open>set(partial)\<close> merges the fields the partial object has into the
  state and keeps the others.
\<close>

record partial_state =
  new_drones :: "drone_map option"
  new_dronePaths :: "path_map option"
  new_selectedDroneId :: "jsval option"
  new_isConnected :: "jsval option"
  new_lastUpdate :: "int option option"

definition no_change :: partial_state where
  "no_change =
     \<lparr>new_drones = None, new_dronePaths = None, new_selectedDroneId = None,
      new_isConnected = None, new_lastUpdate = None\<rparr>"

definition set_state :: "partial_state \<Rightarrow> store \<Rightarrow> store" where
  "set_state p st =
     \<lparr>drones = (case new_drones p of Some v \<Rightarrow> v | None \<Rightarrow> drones st),
      dronePaths = (case new_dronePaths p of Some v \<Rightarrow> v | None \<Rightarrow> dronePaths st),
      selectedDroneId = (case new_selectedDroneId p of Some v \<Rightarrow> v | None \<Rightarrow> selectedDroneId st),
      isConnected = (case new_isConnected p of Some v \<Rightarrow> v | None \<Rightarrow> isConnected st),
      store_lastUpdate = (case new_lastUpdate p of Some v \<Rightarrow> v | None \<Rightarrow> store_lastUpdate st)\<rparr>"

text \<open>
  What the runtime supplies during one call of \<open>updateDrones\<close>: the reading of
  \<open>Date.now()\<close>, the string \<open>new Date().toISOString()\<close> gives while the report at a
  given index is processed, and the string a template literal makes of a value that
  converts.
\<close>

record runtime =
  Date_now :: int
  toISOString :: "nat \<Rightarrow> string"
  ToString :: "jsval \<Rightarrow> string"

subsection \<open>One report\<close>

text \<open>\<open>drone.id || drone.properties?.serial\<close>\<close>

definition droneId_of :: "jsval \<Rightarrow> jsval" where
  "droneId_of drone = js_or (js_get drone ''id'') (js_get (js_get drone ''properties'') ''serial'')"

text \<open>
  \<open>c[i]\<close> for the indices 0, 1 and 2 the program reads: an element of an array, a
  character of a string, the property named by the index of an object.
\<close>

definition index_name :: "nat \<Rightarrow> string" where
  "index_name i = (if i = 0 then ''0'' else if i = 1 then ''1'' else ''2'')"

fun js_index :: "jsval \<Rightarrow> nat \<Rightarrow> jsval" where
  "js_index (JArr xs) i = (if i < length xs then xs ! i else JUndefined)"
| "js_index (JStr s) i = (if i < length s then JStr [s ! i] else JUndefined)"
| "js_index (JObj kvs) i = js_get (JObj kvs) (index_name i)"
| "js_index v i = JUndefined"

text \<open>
  \<open>drone.geometry?.coordinates[i]\<close>: \<open>undefined\<close> without a geometry; with one, the
  index is read from \<open>geometry.coordinates\<close>, which throws when that is \<open>undefined\<close> or
  \<open>null\<close>.
\<close>

definition geometry_coordinate :: "jsval \<Rightarrow> nat \<Rightarrow> js_error + jsval" where
  "geometry_coordinate drone i =
     (let g = js_get drone ''geometry'' in
      if nullish g then Inr JUndefined
      else (let c = js_get g ''coordinates'' in
            if nullish c then Inl TypeError else Inr (js_index c i)))"

text \<open>
  \<^verbatim>\<open>
  const position = drone.position || {
    lat: drone.geometry?.coordinates[1],
    lng: drone.geometry?.coordinates[0],
    altitude: drone.geometry?.coordinates[2] || drone.properties?.altitude
  };
  \<close>
\<close>

definition position_of :: "jsval \<Rightarrow> js_error + jsval" where
  "position_of drone =
     (if truthy (js_get drone ''position'') then Inr (js_get drone ''position'')
      else (case geometry_coordinate drone 1 of
              Inl e \<Rightarrow> Inl e
            | Inr lat \<Rightarrow>
                (case geometry_coordinate drone 0 of
                   Inl e \<Rightarrow> Inl e
                 | Inr lng \<Rightarrow>
                     (case geometry_coordinate drone 2 of
                        Inl e \<Rightarrow> Inl e
                      | Inr alt \<Rightarrow>
                          Inr (JObj [(''lat'', lat), (''lng'', lng),
                                     (''altitude'',
                                      js_or alt (js_get (js_get drone ''properties'') ''altitude''))])))))"

text \<open>\<open>drone.f || drone.properties?.f || dflt\<close>\<close>

definition field_or :: "jsval \<Rightarrow> string \<Rightarrow> jsval \<Rightarrow> jsval" where
  "field_or drone f dflt =
     js_or (js_or (js_get drone f) (js_get (js_get drone ''properties'') f)) dflt"

text \<open>
  \<open>`${v}`\<close>: the string of a value that converts, a TypeError for one that does not.
\<close>

definition template_literal :: "runtime \<Rightarrow> jsval \<Rightarrow> js_error + string" where
  "template_literal rt v = (if convertible v then Inr (ToString rt v) else Inl TypeError)"

text \<open>
  \<open>drone.name || drone.properties?.name || `Drone ${droneId}`\<close>: the template literal
  is evaluated, and can throw, only when the report has no truthy name.
\<close>

definition name_of :: "runtime \<Rightarrow> jsval \<Rightarrow> jsval \<Rightarrow> js_error + jsval" where
  "name_of rt drone droneId =
     (if truthy (js_get drone ''name'') then Inr (js_get drone ''name'')
      else if truthy (js_get (js_get drone ''properties'') ''name'')
        then Inr (js_get (js_get drone ''properties'') ''name'')
      else (case template_literal rt droneId of
              Inl e \<Rightarrow> Inl e
            | Inr s \<Rightarrow> Inr (JStr (''Drone '' @ s))))"

text \<open>
  The object literal \<open>droneData\<close>, for the report at index \<open>i\<close> of the batch, its
  resolved id and position, and the entity the map holds for that id so far. Its only
  field that can throw is the name.
\<close>

definition droneData_of ::
  "runtime \<Rightarrow> nat \<Rightarrow> jsval \<Rightarrow> jsval \<Rightarrow> jsval \<Rightarrow> drone_data option \<Rightarrow> js_error + drone_data" where
  "droneData_of rt i drone droneId pos existingDrone =
     (case name_of rt drone droneId of
        Inl e \<Rightarrow> Inl e
      | Inr droneName \<Rightarrow>
          Inr \<lparr>drone_id = droneId,
               name = droneName,
               status = field_or drone ''status'' (JStr ''FLYING''),
               color = js_or (js_get drone ''color'')
                         (getColor (js_or (js_get drone ''registration'')
                                          (js_get (js_get drone ''properties'') ''registration''))),
               position = pos,
               latitude = js_get pos ''lat'',
               longitude = js_get pos ''lng'',
               altitude = js_or (js_get pos ''altitude'') (JNum (Fin 0)),
               yaw = field_or drone ''yaw'' (JNum (Fin 0)),
               speed = field_or drone ''speed'' (JNum (Fin 0)),
               battery = field_or drone ''battery'' (JNum (Fin 100)),
               signal = field_or drone ''signal'' (JNum (Fin 100)),
               lastSeen = Date_now rt,
               firstSeen = (case existingDrone of
                              None \<Rightarrow> Date_now rt
                            | Some e \<Rightarrow> if firstSeen e \<noteq> 0 then firstSeen e else Date_now rt),
               flightTime = (case existingDrone of
                               None \<Rightarrow> 0
                             | Some e \<Rightarrow> Date_now rt - firstSeen e),
               lastUpdate = js_or (js_get drone ''lastUpdate'') (JStr (toISOString rt i))\<rparr>)"

text \<open>
  \<^verbatim>\<open>
  const existingPath = newPaths.get(droneId) || [];
  existingPath.push({ coordinates: [position.lng, position.lat, position.altitude],
                      timestamp: currentTime });
  if (existingPath.length > 100) { existingPath.shift(); }
  \<close>
\<close>

definition path_point_of :: "runtime \<Rightarrow> jsval \<Rightarrow> path_point" where
  "path_point_of rt pos =
     \<lparr>coordinates = [js_get pos ''lng'', js_get pos ''lat'', js_get pos ''altitude''],
      timestamp = Date_now rt\<rparr>"

text \<open>\<open>paths.get(id) || []\<close>: an array is truthy, so only a missing path is replaced.\<close>

definition path_or_empty :: "path_map \<Rightarrow> jsval \<Rightarrow> path_point list" where
  "path_or_empty paths k = (case map_of paths k of Some p \<Rightarrow> p | None \<Rightarrow> [])"

definition push_point :: "path_point \<Rightarrow> path_point list \<Rightarrow> path_point list" where
  "push_point pt existingPath =
     (let pushed = existingPath @ [pt] in if length pushed > 100 then tl pushed else pushed)"

text \<open>
  The body of \<open>drones.forEach(drone => ...)\<close> on the two maps under construction. It
  throws where the source does: reading \<open>drone.id\<close> of \<open>undefined\<close> or \<open>null\<close>,
  indexing absent coordinates, and making the default name of an id that does not convert.
  All three happen before either map is written.
\<close>

definition update_drone ::
  "runtime \<Rightarrow> nat \<Rightarrow> jsval \<Rightarrow> drone_map \<times> path_map \<Rightarrow> js_error + drone_map \<times> path_map" where
  "update_drone rt i drone maps =
     (if nullish drone then Inl TypeError
      else (case position_of drone of
              Inl e \<Rightarrow> Inl e
            | Inr pos \<Rightarrow>
                (let droneId = droneId_of drone;
                     existingDrone = map_of (fst maps) droneId
                 in case droneData_of rt i drone droneId pos existingDrone of
                      Inl e \<Rightarrow> Inl e
                    | Inr droneData \<Rightarrow>
                        (let existingPath = path_or_empty (snd maps) droneId
                         in Inr (AList.update droneId droneData (fst maps),
                                 AList.update droneId
                                   (push_point (path_point_of rt pos) existingPath)
                                   (snd maps))))))"

text \<open>The loop; when a report throws, the maps as they were at that moment are kept.\<close>

fun forEach_drone ::
  "runtime \<Rightarrow> nat \<Rightarrow> jsval list \<Rightarrow> drone_map \<times> path_map \<Rightarrow>
     js_error \<times> (drone_map \<times> path_map) + drone_map \<times> path_map" where
  "forEach_drone rt i [] maps = Inr maps"
| "forEach_drone rt i (drone # rest) maps =
     (case update_drone rt i drone maps of
        Inl e \<Rightarrow> Inl (e, maps)
      | Inr maps' \<Rightarrow> forEach_drone rt (Suc i) rest maps')"

subsection \<open>The actions\<close>

text \<open>
  \<open>Array.isArray(data) ? data : data.features || []\<close>, and what \<open>forEach\<close> can be
  called on: reading \<open>features\<close> of \<open>undefined\<close> or \<open>null\<close> throws, and so does
  \<open>forEach\<close> on a truthy value that is not an array.
\<close>

definition reports_of :: "jsval \<Rightarrow> js_error + jsval list" where
  "reports_of data =
     (case data of
        JArr xs \<Rightarrow> Inr xs
      | _ \<Rightarrow>
          if nullish data then Inl TypeError
          else if \<not> truthy (js_get data ''features'') then Inr []
          else (case js_get data ''features'' of JArr xs \<Rightarrow> Inr xs | _ \<Rightarrow> Inl TypeError))"

datatype outcome = Done store | Threw js_error store

fun store_of :: "outcome \<Rightarrow> store" where
  "store_of (Done st) = st"
| "store_of (Threw e st) = st"

text \<open>
  \<open>new Map(get().dronePaths)\<close> copies the map, not the arrays in it: a path that was in
  the store is the same array in both maps, and \<open>push\<close> and \<open>shift\<close> change it in the
  store as well. When the call returns, \<open>set\<close> replaces both maps. When a report throws,
  \<open>set\<close> is never reached: the store keeps its maps, with the paths it already had
  changed by the reports processed before the throw.
\<close>

definition shared_paths :: "path_map \<Rightarrow> path_map \<Rightarrow> path_map" where
  "shared_paths newPaths oldPaths =
     map (\<lambda>(k, p). (k, case map_of newPaths k of Some q \<Rightarrow> q | None \<Rightarrow> p)) oldPaths"

definition updateDrones :: "runtime \<Rightarrow> jsval \<Rightarrow> store \<Rightarrow> outcome" where
  "updateDrones rt data st =
     (case reports_of data of
        Inl e \<Rightarrow> Threw e st
      | Inr ds \<Rightarrow>
          (case forEach_drone rt 0 ds (drones st, dronePaths st) of
             Inl (e, maps) \<Rightarrow> Threw e (st\<lparr>dronePaths := shared_paths (snd maps) (dronePaths st)\<rparr>)
           | Inr maps \<Rightarrow>
               Done (set_state
                       (no_change\<lparr>new_drones := Some (fst maps),
                                  new_dronePaths := Some (snd maps),
                                  new_lastUpdate := Some (Some (Date_now rt))\<rparr>)
                       st)))"

definition selectDrone :: "jsval \<Rightarrow> store \<Rightarrow> store" where
  "selectDrone droneId st = set_state (no_change\<lparr>new_selectedDroneId := Some droneId\<rparr>) st"

definition clearSelection :: "store \<Rightarrow> store" where
  "clearSelection st = set_state (no_change\<lparr>new_selectedDroneId := Some JNull\<rparr>) st"

definition setConnectionStatus :: "jsval \<Rightarrow> store \<Rightarrow> store" where
  "setConnectionStatus s st = set_state (no_change\<lparr>new_isConnected := Some s\<rparr>) st"

subsection \<open>The queries\<close>

definition getActiveDrones :: "store \<Rightarrow> drone_data list" where
  "getActiveDrones st = map snd (drones st)"

definition getRedDronesCount :: "store \<Rightarrow> nat" where
  "getRedDronesCount st =
     length (filter (\<lambda>drone. strict_eq (color drone) (JStr ''red'')) (map snd (drones st)))"

definition getDroneById :: "store \<Rightarrow> jsval \<Rightarrow> drone_data option" where
  "getDroneById st k = map_of (drones st) k"

definition getDronePath :: "store \<Rightarrow> jsval \<Rightarrow> path_point list" where
  "getDronePath st k = path_or_empty (dronePaths st) k"

text \<open>
  The arithmetic of \<open>getStatistics\<close> is JavaScript's own, on altitudes of any type: the
  operators \<open>+\<close> and \<open>/\<close> and \<open>Math.max\<close>, \<open>Math.min\<close> are parameters.
  \<^verbatim>\<open>
  const drones = Array.from(get().drones.values());
  if (drones.length === 0) return null;
  const altitudes = drones.map(d => d.altitude);
  return { totalDrones: drones.length, ...,
           averageAltitude: altitudes.reduce((a, b) => a + b, 0) / altitudes.length,
           maxAltitude: Math.max(...altitudes), minAltitude: Math.min(...altitudes) };
  \<close>
\<close>

record arithmetic =
  js_plus :: "jsval \<Rightarrow> jsval \<Rightarrow> jsval"
  js_divide :: "jsval \<Rightarrow> jsval \<Rightarrow> jsval"
  Math_max :: "jsval list \<Rightarrow> jsval"
  Math_min :: "jsval list \<Rightarrow> jsval"

definition js_count :: "nat \<Rightarrow> jsval" where
  "js_count n = JNum (Fin (of_nat n))"

definition getStatistics :: "arithmetic \<Rightarrow> store \<Rightarrow> jsval" where
  "getStatistics ar st =
     (let ds = map snd (drones st) in
      if length ds = 0 then JNull
      else (let altitudes = map altitude ds in
            JObj [(''totalDrones'', js_count (length ds)),
                  (''redDrones'',
                   js_count (length (filter (\<lambda>d. strict_eq (color d) (JStr ''red'')) ds))),
                  (''greenDrones'',
                   js_count (length (filter (\<lambda>d. strict_eq (color d) (JStr ''green'')) ds))),
                  (''averageAltitude'',
                   js_divide ar (foldl (js_plus ar) (JNum (Fin 0)) altitudes)
                     (js_count (length altitudes))),
                  (''maxAltitude'', Math_max ar altitudes),
                  (''minAltitude'', Math_min ar altitudes)]))"

section \<open>The map component\<close>

text \<open>
  The map widget is outside the program. The component is modelled by what it asks of the
  widget, in order (\<open>marker.remove()\<close>, a new marker added to the map, a popup added to
  the map), and by its own table \<open>markersRef\<close> of the markers it created, keyed by
  drone id. A marker is described by what its element was built from.
\<close>

record marker =
  marker_lng :: jsval
  marker_lat :: jsval
  marker_color :: string
  marker_selected :: bool
  marker_pulse :: bool
  marker_popup :: bool

datatype widget_call = RemoveMarker jsval | AddMarker jsval marker | AddPopup jsval

type_synonym marker_map = "(jsval \<times> marker) list"

text \<open>
  What the environment supplies to the marker effect: the string method \<open>toLowerCase\<close>,
  and the widget's \<open>setLngLat([lng, lat])\<close>, which validates the coordinates and gives
  the error it throws when it rejects them.
\<close>

record map_env =
  toLowerCase :: "string \<Rightarrow> string"
  setLngLat :: "jsval \<Rightarrow> jsval \<Rightarrow> js_error option"

text \<open>
  \<open>getDroneColor(status)\<close> switches on \<open>status?.toLowerCase()\<close>, which is \<open>undefined\<close>
  for \<open>undefined\<close> and \<open>null\<close> and throws for any other value that is not a string.
\<close>

definition lowered :: "map_env \<Rightarrow> jsval \<Rightarrow> js_error + jsval" where
  "lowered env v =
     (if nullish v then Inr JUndefined
      else (case v of JStr s \<Rightarrow> Inr (JStr (toLowerCase env s)) | _ \<Rightarrow> Inl TypeError))"

definition getDroneColor :: "map_env \<Rightarrow> jsval \<Rightarrow> js_error + string" where
  "getDroneColor env s =
     (case lowered env s of
        Inl e \<Rightarrow> Inl e
      | Inr l \<Rightarrow>
          Inr (if l = JStr ''active'' \<or> l = JStr ''flying'' then ''#00ff00''
               else if l = JStr ''warning'' \<or> l = JStr ''low battery'' then ''#ffff00''
               else if l = JStr ''critical'' \<or> l = JStr ''emergency'' \<or> l = JStr ''unauthorized''
                 then ''#ff0000''
               else if l = JStr ''idle'' \<or> l = JStr ''landed'' then ''#0080ff''
               else ''#00ff00''))"

text \<open>\<open>if (!drone.position || !drone.position.lat || !drone.position.lng) return;\<close>\<close>

definition placeable :: "drone_data \<Rightarrow> bool" where
  "placeable drone =
     (truthy (position drone) \<and> truthy (js_get (position drone) ''lat'')
      \<and> truthy (js_get (position drone) ''lng''))"

text \<open>
  The popup of the selected drone is built from a template literal with
  \<open>${drone.name}\<close>, \<open>${drone.status}\<close>, \<open>${drone.battery}\<close> and
  \<open>${Math.round(drone.position.altitude)}\<close>; it throws a TypeError when one of the
  four does not convert.
\<close>

definition popup_throws :: "drone_data \<Rightarrow> bool" where
  "popup_throws drone =
     (\<not> convertible (name drone) \<or> \<not> convertible (status drone)
      \<or> \<not> convertible (battery drone)
      \<or> \<not> convertible (js_get (position drone) ''altitude''))"

text \<open>
  The body of \<open>Array.from(drones.values()).forEach(drone => ...)\<close> in the marker effect,
  on the table and the calls made so far. When it throws, the table and the calls are as
  they were at that moment: the colour and \<open>setLngLat\<close> throw before the marker is added
  to the map, the popup after that and before the marker is put into the table.
  \<^verbatim>\<open>
  if (!drone.position || !drone.position.lat || !drone.position.lng) return;
  const droneColor = getDroneColor(drone.status);
  const isSelected = currentSelectedDroneId === drone.id;
  ...
  const marker = new mapboxgl.Marker(markerElement)
    .setLngLat([drone.position.lng, drone.position.lat])
    .addTo(map.current);
  ...
  if (isSelected) {
    const popup = new mapboxgl.Popup({ ... }).setHTML(`...`);
    marker.setPopup(popup);
    popup.addTo(map.current);
  }
  markersRef.current.set(drone.id, marker);
  \<close>
\<close>

definition add_marker ::
  "map_env \<Rightarrow> jsval \<Rightarrow> drone_data \<Rightarrow> marker_map \<times> widget_call list \<Rightarrow>
     js_error \<times> (marker_map \<times> widget_call list) + marker_map \<times> widget_call list" where
  "add_marker env currentSelectedDroneId drone acc =
     (if \<not> placeable drone then Inr acc
      else (case getDroneColor env (status drone) of
              Inl e \<Rightarrow> Inl (e, acc)
            | Inr droneColor \<Rightarrow>
                (let isSelected = strict_eq currentSelectedDroneId (drone_id drone);
                     m = \<lparr>marker_lng = js_get (position drone) ''lng'',
                          marker_lat = js_get (position drone) ''lat'',
                          marker_color = droneColor,
                          marker_selected = isSelected,
                          marker_pulse = (lowered env (status drone) = Inr (JStr ''active'')),
                          marker_popup = isSelected\<rparr>
                 in case setLngLat env (js_get (position drone) ''lng'')
                           (js_get (position drone) ''lat'') of
                      Some e \<Rightarrow> Inl (e, acc)
                    | None \<Rightarrow>
                        (let added = snd acc @ [AddMarker (drone_id drone) m]
                         in if isSelected \<and> popup_throws drone
                            then Inl (TypeError, (fst acc, added))
                            else Inr (AList.update (drone_id drone) m (fst acc),
                                      added @ (if isSelected then [AddPopup (drone_id drone)]
                                               else []))))))"

fun add_markers ::
  "map_env \<Rightarrow> jsval \<Rightarrow> drone_data list \<Rightarrow> marker_map \<times> widget_call list \<Rightarrow>
     js_error option \<times> marker_map \<times> widget_call list" where
  "add_markers env cur [] acc = (None, acc)"
| "add_markers env cur (drone # rest) acc =
     (case add_marker env cur drone acc of
        Inl (e, acc') \<Rightarrow> (Some e, acc')
      | Inr acc' \<Rightarrow> add_markers env cur rest acc')"

text \<open>
  The marker effect. \<open>ready\<close> is \<open>map.current && mapLoaded\<close>. The result is the error
  thrown, if any, the table afterwards and the calls made to the widget.
  \<^verbatim>\<open>
  if (!map.current || !mapLoaded) return;
  // Clear existing markers
  markersRef.current.forEach(marker => marker.remove());
  markersRef.current.clear();
  // Add new markers for each drone
  Array.from(drones.values()).forEach(drone => { ... });
  \<close>
\<close>

definition update_markers ::
  "map_env \<Rightarrow> bool \<Rightarrow> jsval \<Rightarrow> drone_map \<Rightarrow> marker_map \<Rightarrow>
     js_error option \<times> marker_map \<times> widget_call list" where
  "update_markers env ready currentSelectedDroneId ds markers =
     (if \<not> ready then (None, markers, [])
      else add_markers env currentSelectedDroneId (map snd ds)
             ([], map (\<lambda>(k, m). RemoveMarker k) markers))"

text \<open>
  \<open>const currentSelectedDroneId = propSelectedDroneId || selectedDroneId;\<close> and the click
  handler of a marker:
  \<^verbatim>\<open>
  if (currentSelectedDroneId === drone.id) { clearSelection(); } else { selectDrone(drone.id); }
  if (onDroneSelect) { onDroneSelect(drone.id); }
  \<close>
\<close>

definition currentSelectedDroneId_of :: "jsval \<Rightarrow> store \<Rightarrow> jsval" where
  "currentSelectedDroneId_of propSelectedDroneId st = js_or propSelectedDroneId (selectedDroneId st)"

definition marker_click ::
  "jsval \<Rightarrow> (jsval \<Rightarrow> store \<Rightarrow> store) option \<Rightarrow> jsval \<Rightarrow> store \<Rightarrow> store" where
  "marker_click currentSelectedDroneId onDroneSelect droneId st =
     (let st' = (if strict_eq currentSelectedDroneId droneId then clearSelection st
                 else selectDrone droneId st)
      in case onDroneSelect of None \<Rightarrow> st' | Some callback \<Rightarrow> callback droneId st')"

text \<open>
  The application passes the store's \<open>selectedDroneId\<close> as the property and
  \<open>handleMapDroneSelect\<close> as \<open>onDroneSelect\<close>.
\<close>

definition handleMapDroneSelect :: "jsval \<Rightarrow> store \<Rightarrow> store" where
  "handleMapDroneSelect droneId st = selectDrone droneId st"

definition app_marker_click :: "jsval \<Rightarrow> store \<Rightarrow> store" where
  "app_marker_click droneId st =
     marker_click (currentSelectedDroneId_of (selectedDroneId st) st) (Some handleMapDroneSelect)
       droneId st"

text \<open>A run of the store: the batches the update source delivers, one call after another.\<close>

fun apply_batches :: "(runtime \<times> jsval) list \<Rightarrow> store \<Rightarrow> store" where
  "apply_batches [] st = st"
| "apply_batches (b # bs) st = apply_batches bs (store_of (updateDrones (fst b) (snd b) st))"

section \<open>Notions used in the properties\<close>

text \<open>
  A report the loop body accepts without throwing: it is neither \<open>undefined\<close> nor
  \<open>null\<close>; it has a truthy \<open>position\<close>, or no geometry, or a geometry with
  coordinates; and it has a truthy name, at the top level or in \<open>properties\<close>, or an id
  that converts to a string. A batch is accepted when \<open>forEach\<close> can be called on it
  and every report in it is accepted.
\<close>

definition report_ok :: "jsval \<Rightarrow> bool" where
  "report_ok drone =
     (\<not> nullish drone
      \<and> (truthy (js_get drone ''position'') \<or> nullish (js_get drone ''geometry'')
         \<or> \<not> nullish (js_get (js_get drone ''geometry'') ''coordinates''))
      \<and> (truthy (js_get drone ''name'') \<or> truthy (js_get (js_get drone ''properties'') ''name'')
         \<or> convertible (droneId_of drone)))"

definition batch_ok :: "jsval \<Rightarrow> bool" where
  "batch_ok data = (case reports_of data of Inr rs \<Rightarrow> list_all report_ok rs | Inl e \<Rightarrow> False)"

text \<open>The reports of a batch and the position of a report, where there is one.\<close>

definition reports :: "jsval \<Rightarrow> jsval list" where
  "reports data = (case reports_of data of Inr rs \<Rightarrow> rs | Inl e \<Rightarrow> [])"

definition position_value :: "jsval \<Rightarrow> jsval" where
  "position_value drone = (case position_of drone of Inr pos \<Rightarrow> pos | Inl e \<Rightarrow> JUndefined)"

text \<open>
  A report with no resolvable id: no top-level \<open>id\<close> and no \<open>properties.serial\<close>.
\<close>

definition unresolvable :: "jsval \<Rightarrow> bool" where
  "unresolvable drone =
     (js_get drone ''id'' = JUndefined
      \<and> js_get (js_get drone ''properties'') ''serial'' = JUndefined)"

text \<open>
  The colour the loop body gives the entity of a report: the report's own \<open>color\<close> when
  that is truthy, the classification of its registration otherwise.
\<close>

definition report_color :: "jsval \<Rightarrow> jsval" where
  "report_color drone =
     (if truthy (js_get drone ''color'') then js_get drone ''color''
      else getColor (if truthy (js_get drone ''registration'') then js_get drone ''registration''
                     else js_get (js_get drone ''properties'') ''registration''))"

text \<open>
  The path points the reports for one id contribute, in the order of arrival: within a
  batch, and over a run of batches. The last \<open>n\<close> elements of a list. A path map all
  of whose paths hold at most 100 points.
\<close>

definition points_of_batch :: "jsval \<Rightarrow> runtime \<times> jsval \<Rightarrow> path_point list" where
  "points_of_batch k b =
     map (\<lambda>r. path_point_of (fst b) (position_value r))
       (filter (\<lambda>r. droneId_of r = k) (reports (snd b)))"

definition points_for :: "jsval \<Rightarrow> (runtime \<times> jsval) list \<Rightarrow> path_point list" where
  "points_for k bs = concat (map (points_of_batch k) bs)"

definition last_n :: "nat \<Rightarrow> 'a list \<Rightarrow> 'a list" where
  "last_n n xs = drop (length xs - n) xs"

definition bounded :: "path_map \<Rightarrow> bool" where
  "bounded ps = (\<forall>(k, p) \<in> set ps. length p \<le> 100)"

text \<open>
  The calls of a run of batches all return, none throws.
\<close>

fun all_done :: "(runtime \<times> jsval) list \<Rightarrow> store \<Rightarrow> bool" where
  "all_done [] st = True"
| "all_done (b # bs) st =
     (case updateDrones (fst b) (snd b) st of
        Done st' \<Rightarrow> all_done bs st'
      | Threw e st' \<Rightarrow> False)"

text \<open>
  The clock fields of an entity are sound: it was first seen at a positive time and its
  flight time is its last-seen time minus its first-seen time. The readings of
  \<open>Date.now()\<close> over a run of batches are positive.
\<close>

definition entity_sound :: "drone_data \<Rightarrow> bool" where
  "entity_sound e = (0 < firstSeen e \<and> flightTime e = lastSeen e - firstSeen e)"

definition all_sound :: "drone_map \<Rightarrow> bool" where
  "all_sound ds = (\<forall>(k, e) \<in> set ds. entity_sound e)"

definition clock_sound :: "store \<Rightarrow> bool" where
  "clock_sound st = all_sound (drones st)"

definition times_positive :: "(runtime \<times> jsval) list \<Rightarrow> bool" where
  "times_positive bs = list_all (\<lambda>b. 0 < Date_now (fst b)) bs"

text \<open>
  The clock fields of one entity agree with a clock that has reached \<open>t\<close>: they are
  sound, and it was first seen not after it was last seen, which is not after \<open>t\<close>.
\<close>

definition entity_clock :: "int \<Rightarrow> drone_data \<Rightarrow> bool" where
  "entity_clock t e =
     (0 < firstSeen e \<and> firstSeen e \<le> lastSeen e \<and> lastSeen e \<le> t
      \<and> flightTime e = lastSeen e - firstSeen e)"

definition all_clock :: "int \<Rightarrow> drone_map \<Rightarrow> bool" where
  "all_clock t ds = (\<forall>(k, e) \<in> set ds. entity_clock t e)"

definition clock_ok :: "int \<Rightarrow> store \<Rightarrow> bool" where
  "clock_ok t st = all_clock t (drones st)"

text \<open>
  The readings of \<open>Date.now()\<close> over a run of batches are positive and do not decrease,
  starting from \<open>t\<close>.
\<close>

fun times_ok :: "int \<Rightarrow> (runtime \<times> jsval) list \<Rightarrow> bool" where
  "times_ok t [] = True"
| "times_ok t (b # bs) =
     (0 < Date_now (fst b) \<and> t \<le> Date_now (fst b) \<and> times_ok (Date_now (fst b)) bs)"

subsection \<open>Examples\<close>

text \<open>
  A runtime whose clock reads \<open>t\<close>; its \<open>ToString\<close> is right on strings and on
  \<open>undefined\<close>, the ids of the examples. A report for a drone with a position, a run of
  \<open>n\<close> batches at the times 1 to \<open>n\<close>, each with one report for drone d1, and a batch
  of five reports, the third with neither \<open>id\<close> nor \<open>properties\<close>.
\<close>

definition example_runtime :: "int \<Rightarrow> runtime" where
  "example_runtime t =
     \<lparr>Date_now = t,
      toISOString = (\<lambda>i. ''2025-01-01T00:00:00.000Z''),
      ToString = (\<lambda>v. case v of JStr s \<Rightarrow> s | _ \<Rightarrow> ''undefined'')\<rparr>"

definition example_position :: jsval where
  "example_position =
     JObj [(''lat'', JNum (Fin 1)), (''lng'', JNum (Fin 2)), (''altitude'', JNum (Fin 10))]"

definition example_report :: "string \<Rightarrow> jsval" where
  "example_report k = JObj [(''id'', JStr k), (''position'', example_position)]"

definition example_run :: "nat \<Rightarrow> (runtime \<times> jsval) list" where
  "example_run n = map (\<lambda>t. (example_runtime (int t), JArr [example_report ''d1''])) [1..<Suc n]"

definition example_batch :: "jsval list" where
  "example_batch =
     [example_report ''d1'', example_report ''d2'', JObj [(''position'', example_position)],
      example_report ''d3'', example_report ''d4'']"

text \<open>
  \<open>toLowerCase\<close> on ASCII letters; a widget that accepts coordinates that are finite
  numbers with a latitude between -90 and 90, as those of the examples are, and rejects
  all others; the entities of the store after one report for drone d1, after one report
  for it with the status 5, and after one report for it whose name is an object that does
  not convert to a string; and the marker the effect builds for drone d1 when nothing is
  selected.
\<close>

definition ascii_lower :: "string \<Rightarrow> string" where
  "ascii_lower s =
     map (\<lambda>c. if (65::nat) \<le> of_char c \<and> of_char c \<le> (90::nat)
               then (case c of Char b0 b1 b2 b3 b4 b5 b6 b7 \<Rightarrow> Char b0 b1 b2 b3 b4 True b6 b7)
               else c) s"

definition example_env :: map_env where
  "example_env =
     \<lparr>toLowerCase = ascii_lower,
      setLngLat = (\<lambda>lng lat. case lat of
                     JNum (Fin y) \<Rightarrow>
                       (case lng of
                          JNum (Fin x) \<Rightarrow> if - 90 \<le> y \<and> y \<le> 90 then None else Some WidgetError
                        | _ \<Rightarrow> Some WidgetError)
                   | _ \<Rightarrow> Some WidgetError)\<rparr>"

definition example_drones :: drone_map where
  "example_drones =
     drones (store_of (updateDrones (example_runtime 1000) (JArr [example_report ''d1''])
       initial_store))"

definition example_drones_status_5 :: drone_map where
  "example_drones_status_5 =
     drones (store_of (updateDrones (example_runtime 1000)
       (JArr [JObj [(''id'', JStr ''d1''), (''position'', example_position),
                    (''status'', JNum (Fin 5))]])
       initial_store))"

definition example_drones_unnamed :: drone_map where
  "example_drones_unnamed =
     drones (store_of (updateDrones (example_runtime 1000)
       (JArr [JObj [(''id'', JStr ''d1''), (''position'', example_position),
                    (''name'', JObj [(''toString'', JNull)])]])
       initial_store))"

definition example_marker :: marker where
  "example_marker =
     \<lparr>marker_lng = JNum (Fin 2), marker_lat = JNum (Fin 1), marker_color = ''#00ff00'',
      marker_selected = False, marker_pulse = False, marker_popup = False\<rparr>"

section \<open>Properties of the classification\<close>

text \<open>
  C3. \<open>getColor\<close> is a function of any value, with no operation that can throw (the
  string method is reached on strings only). It answers red for \<open>undefined\<close>, for the
  empty string and for every value that is not a string, green exactly for the strings
  that start with the character B, and one of the two colours always.
\<close>

theorem getColor_total_fail_closed:
  "getColor JUndefined = JStr ''red''
   \<and> getColor (JStr '''') = JStr ''red''
   \<and> ((\<forall>s. v \<noteq> JStr s) \<longrightarrow> getColor v = JStr ''red'')
   \<and> (getColor v = JStr ''green'' \<longleftrightarrow> (\<exists>s. v = JStr (CHR ''B'' # s)))
   \<and> (getColor v = JStr ''green'' \<or> getColor v = JStr ''red'')"
proof -
  have strings: "getColor (JStr s) = (if startsWith s ''B'' then JStr ''green'' else JStr ''red'')" for s
    by (cases s) (simp_all add: getColor_def startsWith_def)
  have prefix: "startsWith s ''B'' \<longleftrightarrow> (\<exists>t. s = CHR ''B'' # t)" for s
    by (cases s) (auto simp: startsWith_def)
  show ?thesis
  proof (cases v)
    case (JStr s)
    then show ?thesis using strings [of s] strings [of "''''"] prefix [of s]
      by (auto simp: getColor_def)
  qed (simp_all add: getColor_def)
qed

theorem getColor_witness:
  "getColor (JNum (Fin 42)) = JStr ''red'' \<and> getColor (JStr ''B0042'') = JStr ''green''
   \<and> getColor (JStr ''G0042'') = JStr ''red''"
  using getColor_total_fail_closed [of "JNum (Fin 42)"]
    getColor_total_fail_closed [of "JStr ''B0042''"]
    getColor_total_fail_closed [of "JStr ''G0042''"]
  by auto

section \<open>Properties of the selection and connection actions\<close>

text \<open>
  C10. \<open>selectDrone\<close>, \<open>clearSelection\<close> and \<open>setConnectionStatus\<close> each write one
  field, \<open>selectedDroneId\<close> for the first two and \<open>isConnected\<close> for the third, and leave
  the two maps, \<open>lastUpdate\<close> and the other's field as they were. \<open>selectDrone\<close> takes any
  value as id, whether or not the store has a drone for it.
\<close>

theorem selection_actions_frame:
  "drones (selectDrone k st) = drones st
   \<and> dronePaths (selectDrone k st) = dronePaths st
   \<and> store_lastUpdate (selectDrone k st) = store_lastUpdate st
   \<and> isConnected (selectDrone k st) = isConnected st
   \<and> selectedDroneId (selectDrone k st) = k
   \<and> drones (clearSelection st) = drones st
   \<and> dronePaths (clearSelection st) = dronePaths st
   \<and> store_lastUpdate (clearSelection st) = store_lastUpdate st
   \<and> isConnected (clearSelection st) = isConnected st
   \<and> selectedDroneId (clearSelection st) = JNull
   \<and> drones (setConnectionStatus s st) = drones st
   \<and> dronePaths (setConnectionStatus s st) = dronePaths st
   \<and> store_lastUpdate (setConnectionStatus s st) = store_lastUpdate st
   \<and> selectedDroneId (setConnectionStatus s st) = selectedDroneId st
   \<and> isConnected (setConnectionStatus s st) = s"
  by (simp add: selectDrone_def clearSelection_def setConnectionStatus_def set_state_def
      no_change_def)

section \<open>Properties of the marker click\<close>

text \<open>
  As the application wires it, the handler first toggles and then calls
  \<open>handleMapDroneSelect\<close>, which selects the clicked drone again: whatever was selected
  before, the clicked drone is selected afterwards.
\<close>

lemma app_marker_click_selects: "selectedDroneId (app_marker_click k st) = k"
  by (simp add: app_marker_click_def marker_click_def handleMapDroneSelect_def selectDrone_def
      clearSelection_def set_state_def no_change_def Let_def)

text \<open>
  C9. A click on the marker of the selected drone should clear the selection. With drone
  d1 selected, the handler sees d1 as the current selection; without a callback the click
  clears the selection, but with the callback of the application d1 is still selected
  after the click.
\<close>

theorem click_on_selected_marker_keeps_selection:
  "currentSelectedDroneId_of (JStr ''d1'') (selectDrone (JStr ''d1'') initial_store) = JStr ''d1''
   \<and> selectedDroneId
         (marker_click (JStr ''d1'') None (JStr ''d1'') (selectDrone (JStr ''d1'') initial_store))
       = JNull
   \<and> selectedDroneId (app_marker_click (JStr ''d1'') (selectDrone (JStr ''d1'') initial_store))
       = JStr ''d1''"
  by (simp add: app_marker_click_def marker_click_def handleMapDroneSelect_def selectDrone_def
      clearSelection_def set_state_def no_change_def Let_def currentSelectedDroneId_of_def
      js_or_def initial_store_def strict_eq_def)

section \<open>Properties of the statistics\<close>

text \<open>
  C4, as the claim states it: on a store without drones \<open>getStatistics\<close> should return an
  object with fields such as \<open>totalDrones: 0\<close>. It returns \<open>null\<close>, which is no object
  and has no field.
\<close>

theorem getStatistics_empty_counterexample:
  "getStatistics \<lparr>js_plus = (\<lambda>a b. JNum NaN), js_divide = (\<lambda>a b. JNum NaN),
       Math_max = (\<lambda>xs. JNum NegInf), Math_min = (\<lambda>xs. JNum PosInf)\<rparr> initial_store = JNull
   \<and> \<not> (\<exists>fields. getStatistics \<lparr>js_plus = (\<lambda>a b. JNum NaN), js_divide = (\<lambda>a b. JNum NaN),
       Math_max = (\<lambda>xs. JNum NegInf), Math_min = (\<lambda>xs. JNum PosInf)\<rparr> initial_store
         = JObj fields)"
  by (simp add: getStatistics_def initial_store_def)

text \<open>
  C4, amended: \<open>getStatistics\<close> returns \<open>null\<close> exactly on a store without drones,
  whatever the arithmetic is; no sum, quotient, maximum or minimum is part of that result.
\<close>

theorem getStatistics_null_iff_empty: "(getStatistics ar st = JNull) = (drones st = [])"
  by (simp add: getStatistics_def Let_def)

section \<open>The update loop, report by report\<close>

text \<open>
  The loop body throws exactly on the reports that are not \<open>report_ok\<close>; on the others
  it writes one entity and one path under the id of the report.
\<close>

lemma position_of_ok: "report_ok d \<Longrightarrow> position_of d = Inr (position_value d)"
  by (auto simp: report_ok_def position_of_def position_value_def geometry_coordinate_def Let_def)

lemma position_of_Inl: "position_of d = Inl e \<Longrightarrow> e = TypeError"
  by (auto simp: position_of_def geometry_coordinate_def Let_def split: if_splits)

lemma position_of_Inr:
  "position_of d = Inr pos \<Longrightarrow>
   truthy (js_get d ''position'') \<or> nullish (js_get d ''geometry'')
   \<or> \<not> nullish (js_get (js_get d ''geometry'') ''coordinates'')"
  by (auto simp: position_of_def geometry_coordinate_def Let_def split: if_splits)

lemma name_of_cases:
  "name_of rt d k =
     (if truthy (js_get d ''name'') \<or> truthy (js_get (js_get d ''properties'') ''name'')
         \<or> convertible k
      then Inr (if truthy (js_get d ''name'') then js_get d ''name''
                else if truthy (js_get (js_get d ''properties'') ''name'')
                  then js_get (js_get d ''properties'') ''name''
                else JStr (''Drone '' @ ToString rt k))
      else Inl TypeError)"
  by (simp add: name_of_def template_literal_def)

lemma droneData_of_Inl: "droneData_of rt i d k pos ex = Inl e \<Longrightarrow> e = TypeError"
  by (auto simp: droneData_of_def name_of_cases split: sum.splits if_splits)

lemma droneData_of_returns:
  "(\<exists>dd. droneData_of rt i d k pos ex = Inr dd) \<longleftrightarrow>
   (truthy (js_get d ''name'') \<or> truthy (js_get (js_get d ''properties'') ''name'')
    \<or> convertible k)"
  by (simp add: droneData_of_def name_of_cases)

lemma update_drone_ok:
  assumes "report_ok d"
  shows "\<exists>dd. droneData_of rt i d (droneId_of d) (position_value d) (map_of (fst maps) (droneId_of d))
                = Inr dd
           \<and> update_drone rt i d maps =
               Inr (AList.update (droneId_of d) dd (fst maps),
                    AList.update (droneId_of d)
                      (push_point (path_point_of rt (position_value d))
                         (path_or_empty (snd maps) (droneId_of d)))
                      (snd maps))"
proof -
  from assms have "truthy (js_get d ''name'') \<or> truthy (js_get (js_get d ''properties'') ''name'')
    \<or> convertible (droneId_of d)" by (simp add: report_ok_def)
  then obtain dd where
    dd: "droneData_of rt i d (droneId_of d) (position_value d) (map_of (fst maps) (droneId_of d))
           = Inr dd"
    using droneData_of_returns by blast
  from assms have "\<not> nullish d" by (simp add: report_ok_def)
  with dd position_of_ok [OF assms] show ?thesis
    by (simp add: update_drone_def Let_def)
qed

lemma update_drone_throws:
  assumes "\<not> report_ok d"
  shows "update_drone rt i d maps = Inl TypeError"
proof (cases "nullish d")
  case True
  then show ?thesis by (simp add: update_drone_def)
next
  case False
  show ?thesis
  proof (cases "position_of d")
    case (Inl e)
    with False position_of_Inl [OF Inl] show ?thesis by (simp add: update_drone_def)
  next
    case (Inr pos)
    from position_of_Inr [OF Inr] assms False
    have "\<not> (truthy (js_get d ''name'') \<or> truthy (js_get (js_get d ''properties'') ''name'')
             \<or> convertible (droneId_of d))"
      by (auto simp: report_ok_def)
    then have "\<not> (\<exists>dd. droneData_of rt i d (droneId_of d) pos (map_of (fst maps) (droneId_of d))
                       = Inr dd)"
      by (simp only: droneData_of_returns not_False_eq_True)
    then obtain e where
      e: "droneData_of rt i d (droneId_of d) pos (map_of (fst maps) (droneId_of d)) = Inl e"
      by (cases "droneData_of rt i d (droneId_of d) pos (map_of (fst maps) (droneId_of d))") auto
    from droneData_of_Inl [OF e] e False Inr show ?thesis
      by (simp add: update_drone_def Let_def)
  qed
qed

lemma forEach_drone_ok:
  "list_all report_ok rs \<Longrightarrow> \<exists>maps'. forEach_drone rt i rs maps = Inr maps'"
proof (induction rs arbitrary: i maps)
  case Nil
  then show ?case by simp
next
  case (Cons r rs)
  then have "report_ok r" "list_all report_ok rs" by simp_all
  from update_drone_ok [OF this(1), of rt i maps] obtain maps1 where
    "update_drone rt i r maps = Inr maps1" by blast
  with Cons.IH [OF \<open>list_all report_ok rs\<close>, of "Suc i" maps1] show ?case by simp
qed

lemma forEach_drone_Cons_throws:
  "\<not> report_ok r \<Longrightarrow> forEach_drone rt i (r # rs) maps = Inl (TypeError, maps)"
  by (simp add: update_drone_throws)

lemma forEach_drone_Inr_ok:
  "forEach_drone rt i rs maps = Inr maps' \<Longrightarrow> list_all report_ok rs"
proof (induction rs arbitrary: i maps)
  case Nil
  then show ?case by simp
next
  case (Cons r rs)
  show ?case
  proof (cases "report_ok r")
    case True
    from update_drone_ok [OF True, of rt i maps] obtain maps1 where
      "update_drone rt i r maps = Inr maps1" by blast
    with Cons True show ?thesis by simp
  next
    case False
    with Cons.prems show ?thesis by (simp add: update_drone_throws)
  qed
qed

text \<open>One step of the loop on an accepted report, with the two values it writes.\<close>

lemma forEach_drone_step:
  assumes "forEach_drone rt i (r # rs) maps = Inr maps'"
  obtains dd pp where
    "forEach_drone rt (Suc i) rs
       (AList.update (droneId_of r) dd (fst maps), AList.update (droneId_of r) pp (snd maps))
     = Inr maps'"
    and "droneData_of rt i r (droneId_of r) (position_value r) (map_of (fst maps) (droneId_of r))
           = Inr dd"
    and "pp = push_point (path_point_of rt (position_value r)) (path_or_empty (snd maps) (droneId_of r))"
    and "report_ok r"
proof -
  from assms have ok: "report_ok r" using forEach_drone_Inr_ok by fastforce
  from update_drone_ok [OF ok, of rt i maps] obtain dd where
    dd: "droneData_of rt i r (droneId_of r) (position_value r) (map_of (fst maps) (droneId_of r))
           = Inr dd"
    and u: "update_drone rt i r maps =
               Inr (AList.update (droneId_of r) dd (fst maps),
                    AList.update (droneId_of r)
                      (push_point (path_point_of rt (position_value r))
                         (path_or_empty (snd maps) (droneId_of r)))
                      (snd maps))"
    by blast
  from assms u have "forEach_drone rt (Suc i) rs
       (AList.update (droneId_of r) dd (fst maps),
        AList.update (droneId_of r)
          (push_point (path_point_of rt (position_value r)) (path_or_empty (snd maps) (droneId_of r)))
          (snd maps)) = Inr maps'"
    by simp
  with ok dd that show thesis by blast
qed

text \<open>When the loop throws, the maps it leaves are those some prefix of the batch made.\<close>

lemma forEach_drone_Inl:
  "forEach_drone rt i rs maps = Inl (e, maps1) \<Longrightarrow>
   e = TypeError \<and> (\<exists>pre r post. rs = pre @ r # post \<and> \<not> report_ok r
      \<and> forEach_drone rt i pre maps = Inr maps1)"
proof (induction rs arbitrary: i maps)
  case Nil
  then show ?case by simp
next
  case (Cons r rs)
  show ?case
  proof (cases "report_ok r")
    case False
    with Cons.prems have "e = TypeError" "maps1 = maps"
      by (simp_all add: update_drone_throws)
    moreover have "r # rs = [] @ r # rs" by simp
    moreover have "forEach_drone rt i [] maps = Inr maps" by simp
    ultimately show ?thesis using False by blast
  next
    case True
    from update_drone_ok [OF True, of rt i maps] obtain m1 where
      u: "update_drone rt i r maps = Inr m1" by blast
    with Cons.prems have "forEach_drone rt (Suc i) rs m1 = Inl (e, maps1)" by simp
    from Cons.IH [OF this] obtain pre x post where
      e: "e = TypeError" and rs: "rs = pre @ x # post" and x: "\<not> report_ok x"
      and p: "forEach_drone rt (Suc i) pre m1 = Inr maps1"
      by blast
    from u p have "forEach_drone rt i (r # pre) maps = Inr maps1" by simp
    moreover from rs have "r # rs = (r # pre) @ x # post" by simp
    ultimately show ?thesis using e x by blast
  qed
qed

lemma path_or_empty_update:
  "path_or_empty (AList.update k p ps) k' = (if k' = k then p else path_or_empty ps k')"
  by (simp add: path_or_empty_def update_conv')

section \<open>Properties of the paths\<close>

text \<open>
  After the loop, the path of an id is its path before with the points of the reports
  for that id pushed one by one, in the order of the batch.
\<close>

lemma forEach_drone_paths:
  "forEach_drone rt i rs maps = Inr maps' \<Longrightarrow>
   path_or_empty (snd maps') k =
     foldl (\<lambda>p pt. push_point pt p) (path_or_empty (snd maps) k)
       (map (\<lambda>r. path_point_of rt (position_value r)) (filter (\<lambda>r. droneId_of r = k) rs))"
proof (induction rs arbitrary: i maps)
  case Nil
  then show ?case by simp
next
  case (Cons r rs)
  from Cons.prems obtain dd pp where step: "forEach_drone rt (Suc i) rs
       (AList.update (droneId_of r) dd (fst maps), AList.update (droneId_of r) pp (snd maps))
     = Inr maps'"
    and pp: "pp = push_point (path_point_of rt (position_value r))
                    (path_or_empty (snd maps) (droneId_of r))"
    by (rule forEach_drone_step)
  from Cons.IH [OF step] show ?case
    by (simp add: path_or_empty_update pp)
qed

lemma push_point_last_n:
  "length p \<le> 100 \<Longrightarrow> push_point pt p = last_n 100 (p @ [pt])"
proof (cases "length p = 100")
  case True
  then have "length (p @ [pt]) - 100 = Suc 0" by simp
  then have "last_n 100 (p @ [pt]) = tl (p @ [pt])"
    unfolding last_n_def by (simp only: drop_Suc drop_0)
  with True show ?thesis by (simp add: push_point_def)
next
  case False
  assume "length p \<le> 100"
  with False show ?thesis by (simp add: push_point_def last_n_def)
qed

lemma length_last_n: "length (last_n n xs) = min (length xs) n"
  by (simp add: last_n_def)

lemma last_n_append_last_n: "last_n n (last_n n xs @ ys) = last_n n (xs @ ys)"
proof (cases "length xs \<le> n")
  case True
  then show ?thesis by (simp add: last_n_def)
next
  case False
  then have "length xs - n + n = length xs" by simp
  then show ?thesis using False by (simp add: last_n_def add.commute)
qed

lemma foldl_push_point_last_n:
  "length p \<le> 100 \<Longrightarrow> foldl (\<lambda>p pt. push_point pt p) p pts = last_n 100 (p @ pts)"
proof (induction pts arbitrary: p)
  case Nil
  then show ?case by (simp add: last_n_def)
next
  case (Cons pt pts)
  have "length (push_point pt p) \<le> 100"
    using Cons.prems by (simp add: push_point_last_n length_last_n)
  from Cons.IH [OF this] show ?case
    using Cons.prems last_n_append_last_n [of 100 "p @ [pt]" pts]
    by (simp add: push_point_last_n)
qed

lemma push_point_not_empty: "push_point pt p \<noteq> []"
  by (cases p) (auto simp: push_point_def Let_def)

lemma foldl_push_point_not_empty:
  "pts \<noteq> [] \<Longrightarrow> foldl (\<lambda>p pt. push_point pt p) p pts \<noteq> []"
proof (induction pts arbitrary: p rule: rev_induct)
  case Nil
  then show ?case by simp
next
  case (snoc pt pts)
  show ?case by (simp add: push_point_not_empty)
qed

lemma set_update_subset: "set (AList.update k v al) \<subseteq> insert (k, v) (set al)"
  by (induction al) auto

lemma length_push_point: "length p \<le> 100 \<Longrightarrow> length (push_point pt p) \<le> 100"
  by (simp add: push_point_last_n length_last_n)

lemma bounded_path_or_empty: "bounded ps \<Longrightarrow> length (path_or_empty ps k) \<le> 100"
  by (auto simp: bounded_def path_or_empty_def split: option.splits dest!: map_of_SomeD)

lemma bounded_update:
  "bounded ps \<Longrightarrow> length p \<le> 100 \<Longrightarrow> bounded (AList.update k p ps)"
  using set_update_subset [of k p ps] by (auto simp: bounded_def)

lemma forEach_drone_bounded:
  "bounded (snd maps) \<Longrightarrow>
   (case forEach_drone rt i rs maps of Inl (e, m) \<Rightarrow> bounded (snd m) | Inr m \<Rightarrow> bounded (snd m))"
proof (induction rs arbitrary: i maps)
  case Nil
  then show ?case by simp
next
  case (Cons r rs)
  show ?case
  proof (cases "report_ok r")
    case True
    from update_drone_ok [OF True, of rt i maps] obtain dd where
      u: "update_drone rt i r maps =
               Inr (AList.update (droneId_of r) dd (fst maps),
                    AList.update (droneId_of r)
                      (push_point (path_point_of rt (position_value r))
                         (path_or_empty (snd maps) (droneId_of r)))
                      (snd maps))"
      by blast
    have "bounded (AList.update (droneId_of r)
          (push_point (path_point_of rt (position_value r)) (path_or_empty (snd maps) (droneId_of r)))
          (snd maps))"
      using Cons.prems by (simp add: bounded_update length_push_point bounded_path_or_empty)
    then show ?thesis
      using Cons.IH [of "(AList.update (droneId_of r) dd (fst maps),
        AList.update (droneId_of r)
          (push_point (path_point_of rt (position_value r)) (path_or_empty (snd maps) (droneId_of r)))
          (snd maps))" "Suc i"]
      by (simp add: u)
  next
    case False
    with Cons.prems show ?thesis by (simp add: update_drone_throws)
  qed
qed

lemma bounded_shared_paths: "bounded np \<Longrightarrow> bounded old \<Longrightarrow> bounded (shared_paths np old)"
  by (auto simp: bounded_def shared_paths_def split: option.splits dest!: map_of_SomeD)

lemma updateDrones_bounded:
  assumes "bounded (dronePaths st)"
  shows "bounded (dronePaths (store_of (updateDrones rt data st)))"
proof (cases "reports_of data")
  case (Inl e)
  with assms show ?thesis by (simp add: updateDrones_def)
next
  case (Inr rs)
  show ?thesis
  proof (cases "forEach_drone rt 0 rs (drones st, dronePaths st)")
    case (Inl em)
    then have "bounded (snd (snd em))"
      using forEach_drone_bounded [of "(drones st, dronePaths st)" rt 0 rs] assms
      by (cases em) simp
    with Inl Inr assms show ?thesis
      by (cases em) (simp add: updateDrones_def bounded_shared_paths)
  next
    case (Inr m)
    then have "bounded (snd m)"
      using forEach_drone_bounded [of "(drones st, dronePaths st)" rt 0 rs] assms by simp
    with Inr \<open>reports_of data = Inr rs\<close> show ?thesis
      by (simp add: updateDrones_def set_state_def no_change_def)
  qed
qed

lemma apply_batches_bounded:
  "bounded (dronePaths st) \<Longrightarrow> bounded (dronePaths (apply_batches bs st))"
  by (induction bs arbitrary: st) (simp_all add: updateDrones_bounded)

text \<open>
  A call of \<open>updateDrones\<close> returns exactly on the accepted batches, with the maps the
  loop made.
\<close>

lemma updateDrones_ok_Done:
  assumes "batch_ok data"
  shows "\<exists>maps'. forEach_drone rt 0 (reports data) (drones st, dronePaths st) = Inr maps'
           \<and> updateDrones rt data st =
               Done \<lparr>drones = fst maps', dronePaths = snd maps',
                     selectedDroneId = selectedDroneId st, isConnected = isConnected st,
                     store_lastUpdate = Some (Date_now rt)\<rparr>"
proof -
  from assms obtain rs where rs: "reports_of data = Inr rs" "list_all report_ok rs"
    by (auto simp: batch_ok_def split: sum.splits)
  from forEach_drone_ok [OF rs(2)] obtain maps' where
    "forEach_drone rt 0 rs (drones st, dronePaths st) = Inr maps'" by blast
  with rs show ?thesis
    by (simp add: updateDrones_def reports_def set_state_def no_change_def)
qed

lemma updateDrones_Done:
  assumes "updateDrones rt data st = Done st'"
  shows "batch_ok data"
    and "\<exists>maps'. forEach_drone rt 0 (reports data) (drones st, dronePaths st) = Inr maps'
           \<and> st' = \<lparr>drones = fst maps', dronePaths = snd maps',
                     selectedDroneId = selectedDroneId st, isConnected = isConnected st,
                     store_lastUpdate = Some (Date_now rt)\<rparr>"
proof -
  from assms obtain rs where rs: "reports_of data = Inr rs"
    by (cases "reports_of data") (simp_all add: updateDrones_def)
  from assms rs obtain maps' where
    m: "forEach_drone rt 0 rs (drones st, dronePaths st) = Inr maps'"
    by (cases "forEach_drone rt 0 rs (drones st, dronePaths st)")
       (auto simp: updateDrones_def split: prod.splits)
  from forEach_drone_Inr_ok [OF m] rs show "batch_ok data" by (simp add: batch_ok_def)
  from assms rs m
  show "\<exists>maps'. forEach_drone rt 0 (reports data) (drones st, dronePaths st) = Inr maps'
           \<and> st' = \<lparr>drones = fst maps', dronePaths = snd maps',
                     selectedDroneId = selectedDroneId st, isConnected = isConnected st,
                     store_lastUpdate = Some (Date_now rt)\<rparr>"
    by (auto simp: updateDrones_def reports_def set_state_def no_change_def)
qed

lemma updateDrones_Done_iff: "(\<exists>st'. updateDrones rt data st = Done st') \<longleftrightarrow> batch_ok data"
  using updateDrones_Done(1) updateDrones_ok_Done by blast

lemma all_done_if_ok:
  assumes "list_all (\<lambda>b. batch_ok (snd b)) bs"
  shows "all_done bs st"
proof -
  from assms have "\<forall>st. all_done bs st"
  proof (induction bs)
    case Nil
    then show ?case by simp
  next
    case (Cons b bs)
    then have ok: "batch_ok (snd b)" and ih: "\<forall>st. all_done bs st" by simp_all
    show ?case
    proof
      fix s0
      from updateDrones_ok_Done [OF ok, of "fst b" s0] obtain s1 where
        "updateDrones (fst b) (snd b) s0 = Done s1" by blast
      with ih show "all_done (b # bs) s0" by simp
    qed
  qed
  then show ?thesis by blast
qed

lemma updateDrones_path_pushed:
  assumes "updateDrones rt data st = Done st'"
  shows "getDronePath st' k =
           foldl (\<lambda>p pt. push_point pt p) (getDronePath st k) (points_of_batch k (rt, data))"
proof -
  from updateDrones_Done(2) [OF assms] obtain maps' where
    m: "forEach_drone rt 0 (reports data) (drones st, dronePaths st) = Inr maps'"
    and d: "dronePaths st' = snd maps'"
    by auto
  from forEach_drone_paths [OF m, of k] show ?thesis
    by (simp add: d getDronePath_def points_of_batch_def)
qed

lemma updateDrones_path:
  assumes "updateDrones rt data st = Done st'" "bounded (dronePaths st)"
  shows "getDronePath st' k = last_n 100 (getDronePath st k @ points_of_batch k (rt, data))"
proof -
  have "length (getDronePath st k) \<le> 100"
    using assms(2) by (simp add: getDronePath_def bounded_path_or_empty)
  then show ?thesis
    using updateDrones_path_pushed [OF assms(1), of k]
    by (simp add: foldl_push_point_last_n)
qed

lemma apply_batches_path:
  "all_done bs st \<Longrightarrow> bounded (dronePaths st) \<Longrightarrow>
   getDronePath (apply_batches bs st) k = last_n 100 (getDronePath st k @ points_for k bs)"
proof (induction bs arbitrary: st)
  case Nil
  then have "length (getDronePath st k) \<le> 100"
    by (simp add: getDronePath_def bounded_path_or_empty)
  then show ?case by (simp add: points_for_def last_n_def)
next
  case (Cons b bs)
  from Cons.prems(1) obtain st1 where d: "updateDrones (fst b) (snd b) st = Done st1"
    and rest: "all_done bs st1"
    by (cases "updateDrones (fst b) (snd b) st") simp_all
  have b: "bounded (dronePaths st1)"
    using updateDrones_bounded [OF Cons.prems(2), of "fst b" "snd b"] by (simp add: d)
  have "getDronePath st1 k = last_n 100 (getDronePath st k @ points_of_batch k b)"
    using updateDrones_path [OF _ Cons.prems(2), of "fst b" "snd b" st1 k] d by simp
  then show ?case
    using Cons.IH [OF rest b] by (simp add: points_for_def last_n_append_last_n d)
qed

text \<open>
  C2. After any run of batches from the initial store, the path of every id has at most
  100 points, also when calls threw. When no call of the run throws, the path of an id is
  the last 100 of the points its reports contributed, in the order of arrival, so its
  length is the smaller of 100 and the number of reports received for the id.
\<close>

theorem path_keeps_last_100:
  "length (getDronePath (apply_batches bs initial_store) k) \<le> 100
   \<and> (all_done bs initial_store \<longrightarrow>
        getDronePath (apply_batches bs initial_store) k = last_n 100 (points_for k bs)
        \<and> length (getDronePath (apply_batches bs initial_store) k)
            = min (length (points_for k bs)) 100)"
proof -
  have init: "bounded (dronePaths initial_store)"
    by (simp add: bounded_def initial_store_def)
  have "length (getDronePath (apply_batches bs initial_store) k) \<le> 100"
    using apply_batches_bounded [OF init, of bs]
    by (simp add: getDronePath_def bounded_path_or_empty)
  moreover have "getDronePath initial_store k = []"
    by (simp add: getDronePath_def path_or_empty_def initial_store_def)
  ultimately show ?thesis
    using apply_batches_path [OF _ init, of bs k] by (simp add: length_last_n)
qed

text \<open>The example run: 150 batches for drone d1, at the times 1 to 150.\<close>

lemma example_report_ok: "report_ok (example_report k)"
  by (simp add: report_ok_def example_report_def example_position_def nullish_def droneId_of_def
      js_or_def)

lemma example_report_batch_ok: "batch_ok (JArr [example_report k])"
  by (simp add: batch_ok_def reports_of_def example_report_ok)

lemma example_points:
  "points_of_batch (JStr ''d1'') (example_runtime t, JArr [example_report ''d1'']) =
     [\<lparr>coordinates = [JNum (Fin 2), JNum (Fin 1), JNum (Fin 10)], timestamp = t\<rparr>]"
  by (simp add: points_of_batch_def reports_def reports_of_def example_report_def droneId_of_def
      js_or_def position_value_def position_of_def example_position_def path_point_of_def
      example_runtime_def)

lemma example_run_points:
  "points_for (JStr ''d1'') (example_run n) =
     map (\<lambda>t. \<lparr>coordinates = [JNum (Fin 2), JNum (Fin 1), JNum (Fin 10)], timestamp = int t\<rparr>)
       [1..<Suc n]"
  unfolding points_for_def example_run_def
  by (induction n) (simp_all add: example_points)

theorem path_keeps_last_100_witness:
  "all_done (example_run 150) initial_store
   \<and> length (getDronePath (apply_batches (example_run 150) initial_store) (JStr ''d1'')) = 100
   \<and> map timestamp (getDronePath (apply_batches (example_run 150) initial_store) (JStr ''d1''))
       = map int [51..<151]"
proof -
  have "list_all (\<lambda>b. batch_ok (snd b)) (example_run 150)"
    by (simp add: example_run_def list_all_iff example_report_batch_ok)
  then have ok: "all_done (example_run 150) initial_store" by (rule all_done_if_ok)
  have "last_n 100 (points_for (JStr ''d1'') (example_run 150)) =
     map (\<lambda>t. \<lparr>coordinates = [JNum (Fin 2), JNum (Fin 1), JNum (Fin 10)], timestamp = int t\<rparr>)
       [51..<151]"
    by (simp add: example_run_points last_n_def drop_map)
  with ok path_keeps_last_100 [of "example_run 150" "JStr ''d1''"] show ?thesis
    by (simp add: comp_def)
qed

section \<open>The entities after the loop\<close>

text \<open>
  The keys of the entities and of the paths after the loop are those before and the ids of
  the reports; an id no report has keeps its entity.
\<close>

lemma fst_set_update: "fst ` set (AList.update k v al) = insert k (fst ` set al)"
  using dom_update [of k v al] by (simp add: dom_map_of_conv_image_fst)

lemma forEach_drone_keys:
  "forEach_drone rt i rs maps = Inr maps' \<Longrightarrow>
   fst ` set (fst maps') = fst ` set (fst maps) \<union> droneId_of ` set rs
   \<and> fst ` set (snd maps') = fst ` set (snd maps) \<union> droneId_of ` set rs"
proof (induction rs arbitrary: i maps)
  case Nil
  then show ?case by simp
next
  case (Cons r rs)
  from Cons.prems obtain dd pp where step: "forEach_drone rt (Suc i) rs
       (AList.update (droneId_of r) dd (fst maps), AList.update (droneId_of r) pp (snd maps))
     = Inr maps'"
    by (rule forEach_drone_step)
  from Cons.IH [OF step] show ?case by (simp add: fst_set_update)
qed

lemma forEach_drone_others:
  "forEach_drone rt i rs maps = Inr maps' \<Longrightarrow> k \<notin> droneId_of ` set rs \<Longrightarrow>
   map_of (fst maps') k = map_of (fst maps) k"
proof (induction rs arbitrary: i maps)
  case Nil
  then show ?case by simp
next
  case (Cons r rs)
  from Cons.prems(1) obtain dd pp where step: "forEach_drone rt (Suc i) rs
       (AList.update (droneId_of r) dd (fst maps), AList.update (droneId_of r) pp (snd maps))
     = Inr maps'"
    by (rule forEach_drone_step)
  from Cons.prems(2) have "k \<noteq> droneId_of r" "k \<notin> droneId_of ` set rs" by auto
  with Cons.IH [OF step] show ?case by (simp add: update_conv')
qed

text \<open>The entity of an id a batch reports is the object built from its last report for it.\<close>

lemma forEach_drone_last:
  "forEach_drone rt i rs maps = Inr maps' \<Longrightarrow> filter (\<lambda>r. droneId_of r = k) rs \<noteq> [] \<Longrightarrow>
   \<exists>j existing dd.
     droneData_of rt j (last (filter (\<lambda>r. droneId_of r = k) rs)) k
       (position_value (last (filter (\<lambda>r. droneId_of r = k) rs))) existing = Inr dd
     \<and> map_of (fst maps') k = Some dd"
proof (induction rs arbitrary: i maps)
  case Nil
  then show ?case by simp
next
  case (Cons r rs)
  from Cons.prems(1) obtain dd pp where step: "forEach_drone rt (Suc i) rs
       (AList.update (droneId_of r) dd (fst maps), AList.update (droneId_of r) pp (snd maps))
     = Inr maps'"
    and dd: "droneData_of rt i r (droneId_of r) (position_value r) (map_of (fst maps) (droneId_of r))
               = Inr dd"
    by (rule forEach_drone_step)
  show ?case
  proof (cases "filter (\<lambda>r. droneId_of r = k) rs = []")
    case True
    then have "k \<notin> droneId_of ` set rs" by (auto simp: filter_empty_conv)
    from forEach_drone_others [OF step this]
    have m: "map_of (fst maps') k = map_of (AList.update (droneId_of r) dd (fst maps)) k"
      by simp
    from True Cons.prems(2) have k: "droneId_of r = k" by (simp split: if_splits)
    with True have l: "last (filter (\<lambda>r. droneId_of r = k) (r # rs)) = r" by simp
    have "map_of (fst maps') k = Some dd" using m k by (simp add: update_conv')
    with dd show ?thesis unfolding l k by blast
  next
    case False
    from Cons.IH [OF step False] False show ?thesis by simp
  qed
qed

text \<open>A batch that is an array, and the fields of an entity that do not depend on the one before.\<close>

lemma reports_JArr: "reports (JArr rs) = rs"
  by (simp add: reports_def reports_of_def)

lemma batch_ok_JArr: "batch_ok (JArr rs) = list_all report_ok rs"
  by (simp add: batch_ok_def reports_of_def)

lemma droneData_of_fields:
  assumes "droneData_of rt j r k pos ex = Inr dd"
  shows "drone_id dd = k" and "lastSeen dd = Date_now rt" and "color dd = report_color r"
  using assms
  by (auto simp: droneData_of_def report_color_def js_or_def split: sum.splits)

text \<open>The definitions that evaluate a call of \<open>updateDrones\<close> on a given batch.\<close>

lemmas eval_defs = updateDrones_def reports_of_def update_drone_def position_of_def droneId_of_def
  droneData_of_def name_of_def template_literal_def field_or_def js_or_def nullish_def
  path_or_empty_def push_point_def path_point_of_def set_state_def no_change_def
  initial_store_def getDroneById_def example_runtime_def example_position_def
  example_report_def getColor_def startsWith_def geometry_coordinate_def Let_def

section \<open>Properties of reports without an id\<close>

lemma unresolvable_droneId: "unresolvable r \<Longrightarrow> droneId_of r = JUndefined"
  by (simp add: unresolvable_def droneId_of_def js_or_def)

text \<open>
  C1, as the claim states it: a batch of five reports of which one has no resolvable id
  should create four entities, and no exception should propagate. On the initial store the
  batch creates five, the third under the key \<open>undefined\<close>. And a report with no
  resolvable id whose geometry has no coordinates throws, so that the report after it is
  never processed and the store is left as it was.
\<close>

theorem unresolvable_id_counterexample:
  "map fst (drones (store_of (updateDrones (example_runtime 1000) (JArr example_batch)
       initial_store)))
     = [JStr ''d1'', JStr ''d2'', JUndefined, JStr ''d3'', JStr ''d4'']
   \<and> unresolvable (JObj [(''position'', example_position)])
   \<and> unresolvable (JObj [(''geometry'', JObj [])])
   \<and> updateDrones (example_runtime 1000)
         (JArr [JObj [(''geometry'', JObj [])], example_report ''d1'']) initial_store
       = Threw TypeError initial_store"
  by (simp add: eval_defs example_batch_def unresolvable_def shared_paths_def)

text \<open>
  C1, amended: no report is ever dropped. Whenever a call of \<open>updateDrones\<close> returns,
  every report of the batch has been processed: the keys of the entities and of the paths
  afterwards are those before and the ids of the reports; the path of every id is its
  path before with one point pushed for each report for that id; every report has an
  entity under its id, last seen at the time of the batch; and a report with no
  resolvable id has the id \<open>undefined\<close> and is stored under that key, with a path.
  The call returns, and nothing is thrown, exactly on the accepted batches: \<open>forEach\<close>
  can be called on the batch, and each report is neither \<open>undefined\<close> nor \<open>null\<close>,
  has a position or no geometry or coordinates in it, and has a name or an id that
  converts to a string.
\<close>

theorem unresolvable_report_is_stored:
  "(\<forall>st'. updateDrones rt data st = Done st' \<longrightarrow>
      fst ` set (drones st') = fst ` set (drones st) \<union> droneId_of ` set (reports data)
      \<and> fst ` set (dronePaths st') = fst ` set (dronePaths st) \<union> droneId_of ` set (reports data)
      \<and> (\<forall>k. getDronePath st' k =
             foldl (\<lambda>p pt. push_point pt p) (getDronePath st k) (points_of_batch k (rt, data)))
      \<and> (\<forall>r \<in> set (reports data). \<exists>e. getDroneById st' (droneId_of r) = Some e
             \<and> drone_id e = droneId_of r \<and> lastSeen e = Date_now rt)
      \<and> (\<forall>r \<in> set (reports data). unresolvable r \<longrightarrow>
             droneId_of r = JUndefined \<and> (\<exists>e. getDroneById st' JUndefined = Some e)
             \<and> getDronePath st' JUndefined \<noteq> []))
   \<and> ((\<exists>st'. updateDrones rt data st = Done st') \<longleftrightarrow> batch_ok data)"
proof -
  have stored: "fst ` set (drones st') = fst ` set (drones st) \<union> droneId_of ` set (reports data)
      \<and> fst ` set (dronePaths st') = fst ` set (dronePaths st) \<union> droneId_of ` set (reports data)
      \<and> (\<forall>k. getDronePath st' k =
             foldl (\<lambda>p pt. push_point pt p) (getDronePath st k) (points_of_batch k (rt, data)))
      \<and> (\<forall>r \<in> set (reports data). \<exists>e. getDroneById st' (droneId_of r) = Some e
             \<and> drone_id e = droneId_of r \<and> lastSeen e = Date_now rt)
      \<and> (\<forall>r \<in> set (reports data). unresolvable r \<longrightarrow>
             droneId_of r = JUndefined \<and> (\<exists>e. getDroneById st' JUndefined = Some e)
             \<and> getDronePath st' JUndefined \<noteq> [])"
    if d: "updateDrones rt data st = Done st'" for st'
  proof -
    from updateDrones_Done(2) [OF d] obtain maps' where
      m: "forEach_drone rt 0 (reports data) (drones st, dronePaths st) = Inr maps'"
      and ds: "drones st' = fst maps'" and ps: "dronePaths st' = snd maps'"
      by auto
    have keys: "fst ` set (drones st') = fst ` set (drones st) \<union> droneId_of ` set (reports data)"
      "fst ` set (dronePaths st') = fst ` set (dronePaths st) \<union> droneId_of ` set (reports data)"
      using forEach_drone_keys [OF m] by (simp_all add: ds ps)
    have paths: "getDronePath st' k =
            foldl (\<lambda>p pt. push_point pt p) (getDronePath st k) (points_of_batch k (rt, data))" for k
      using d by (rule updateDrones_path_pushed)
    have each: "\<exists>e. getDroneById st' (droneId_of r) = Some e
            \<and> drone_id e = droneId_of r \<and> lastSeen e = Date_now rt"
      if "r \<in> set (reports data)" for r
    proof -
      from that have "filter (\<lambda>x. droneId_of x = droneId_of r) (reports data) \<noteq> []"
        by (auto simp: filter_empty_conv)
      from forEach_drone_last [OF m this] obtain j ex dd where
        dd: "droneData_of rt j (last (filter (\<lambda>x. droneId_of x = droneId_of r) (reports data)))
               (droneId_of r)
               (position_value (last (filter (\<lambda>x. droneId_of x = droneId_of r) (reports data)))) ex
             = Inr dd"
        and s: "map_of (fst maps') (droneId_of r) = Some dd"
        by blast
      from droneData_of_fields(1,2) [OF dd] s show ?thesis
        by (simp add: getDroneById_def ds)
    qed
    have pathed: "getDronePath st' (droneId_of r) \<noteq> []" if "r \<in> set (reports data)" for r
    proof -
      from that have "points_of_batch (droneId_of r) (rt, data) \<noteq> []"
        by (auto simp: points_of_batch_def filter_empty_conv)
      then show ?thesis unfolding paths by (rule foldl_push_point_not_empty)
    qed
    have unres: "droneId_of r = JUndefined \<and> (\<exists>e. getDroneById st' JUndefined = Some e)
              \<and> getDronePath st' JUndefined \<noteq> []"
      if r: "r \<in> set (reports data)" "unresolvable r" for r
    proof -
      from unresolvable_droneId [OF r(2)] have u: "droneId_of r = JUndefined" .
      from each [OF r(1)] obtain e where "getDroneById st' JUndefined = Some e"
        unfolding u by blast
      moreover from pathed [OF r(1)] have "getDronePath st' JUndefined \<noteq> []"
        unfolding u .
      ultimately show ?thesis using u by blast
    qed
    have P: "\<forall>k. getDronePath st' k =
              foldl (\<lambda>p pt. push_point pt p) (getDronePath st k) (points_of_batch k (rt, data))"
      by (intro allI) (rule paths)
    have E: "\<forall>r \<in> set (reports data). \<exists>e. getDroneById st' (droneId_of r) = Some e
              \<and> drone_id e = droneId_of r \<and> lastSeen e = Date_now rt"
      by (intro ballI) (rule each)
    have U: "\<forall>r \<in> set (reports data). unresolvable r \<longrightarrow>
              droneId_of r = JUndefined \<and> (\<exists>e. getDroneById st' JUndefined = Some e)
              \<and> getDronePath st' JUndefined \<noteq> []"
      by (intro ballI impI) (rule unres)
    show ?thesis by (intro conjI keys P E U)
  qed
  have returning: "(\<exists>st'. updateDrones rt data st = Done st') \<longleftrightarrow> batch_ok data"
    by (rule updateDrones_Done_iff)
  have "\<forall>st'. updateDrones rt data st = Done st' \<longrightarrow>
      fst ` set (drones st') = fst ` set (drones st) \<union> droneId_of ` set (reports data)
      \<and> fst ` set (dronePaths st') = fst ` set (dronePaths st) \<union> droneId_of ` set (reports data)
      \<and> (\<forall>k. getDronePath st' k =
             foldl (\<lambda>p pt. push_point pt p) (getDronePath st k) (points_of_batch k (rt, data)))
      \<and> (\<forall>r \<in> set (reports data). \<exists>e. getDroneById st' (droneId_of r) = Some e
             \<and> drone_id e = droneId_of r \<and> lastSeen e = Date_now rt)
      \<and> (\<forall>r \<in> set (reports data). unresolvable r \<longrightarrow>
             droneId_of r = JUndefined \<and> (\<exists>e. getDroneById st' JUndefined = Some e)
             \<and> getDronePath st' JUndefined \<noteq> [])"
    by (intro allI impI) (rule stored)
  then show ?thesis using returning by (rule conjI)
qed

lemma example_batch_ids:
  "droneId_of ` set example_batch = {JStr ''d1'', JStr ''d2'', JUndefined, JStr ''d3'', JStr ''d4''}"
  by (auto simp: example_batch_def example_report_def droneId_of_def js_or_def)

lemma example_batch_ok: "batch_ok (JArr example_batch)"
  by (simp add: batch_ok_JArr example_batch_def example_report_def report_ok_def nullish_def
      example_position_def droneId_of_def js_or_def)

theorem unresolvable_report_is_stored_witness:
  "batch_ok (JArr example_batch)
   \<and> unresolvable (JObj [(''position'', example_position)])
   \<and> (\<exists>st'. updateDrones (example_runtime 1000) (JArr example_batch) initial_store = Done st'
         \<and> fst ` set (drones st') = {JStr ''d1'', JStr ''d2'', JUndefined, JStr ''d3'', JStr ''d4''}
         \<and> (\<exists>e. getDroneById st' JUndefined = Some e)
         \<and> getDronePath st' JUndefined \<noteq> [])"
proof -
  have u: "unresolvable (JObj [(''position'', example_position)])"
    by (simp add: unresolvable_def)
  have mem: "JObj [(''position'', example_position)] \<in> set (reports (JArr example_batch))"
    by (simp add: reports_JArr example_batch_def)
  note inst = unresolvable_report_is_stored [of "example_runtime 1000" "JArr example_batch"
      initial_store]
  from inst example_batch_ok obtain st' where
    d: "updateDrones (example_runtime 1000) (JArr example_batch) initial_store = Done st'"
    by (elim conjE) blast
  from inst have all: "\<forall>st'. updateDrones (example_runtime 1000) (JArr example_batch) initial_store
        = Done st' \<longrightarrow>
      fst ` set (drones st') =
        fst ` set (drones initial_store) \<union> droneId_of ` set (reports (JArr example_batch))
      \<and> fst ` set (dronePaths st') =
        fst ` set (dronePaths initial_store) \<union> droneId_of ` set (reports (JArr example_batch))
      \<and> (\<forall>k. getDronePath st' k =
             foldl (\<lambda>p pt. push_point pt p) (getDronePath initial_store k)
               (points_of_batch k (example_runtime 1000, JArr example_batch)))
      \<and> (\<forall>r \<in> set (reports (JArr example_batch)). \<exists>e. getDroneById st' (droneId_of r) = Some e
             \<and> drone_id e = droneId_of r \<and> lastSeen e = Date_now (example_runtime 1000))
      \<and> (\<forall>r \<in> set (reports (JArr example_batch)). unresolvable r \<longrightarrow>
             droneId_of r = JUndefined \<and> (\<exists>e. getDroneById st' JUndefined = Some e)
             \<and> getDronePath st' JUndefined \<noteq> [])"
    by (rule conjunct1)
  note here = all [rule_format, OF d]
  from here have k: "fst ` set (drones st') =
        fst ` set (drones initial_store) \<union> droneId_of ` set (reports (JArr example_batch))"
    by (elim conjE)
  from here have r: "\<forall>r \<in> set (reports (JArr example_batch)). unresolvable r \<longrightarrow>
             droneId_of r = JUndefined \<and> (\<exists>e. getDroneById st' JUndefined = Some e)
             \<and> getDronePath st' JUndefined \<noteq> []"
    by (elim conjE)
  from k have k': "fst ` set (drones st') = {JStr ''d1'', JStr ''d2'', JUndefined, JStr ''d3'', JStr ''d4''}"
    by (simp add: reports_JArr example_batch_ids initial_store_def)
  from r mem u have "(\<exists>e. getDroneById st' JUndefined = Some e) \<and> getDronePath st' JUndefined \<noteq> []"
    by blast
  with d k' u example_batch_ok show ?thesis by blast
qed

section \<open>Properties of the colour\<close>

text \<open>
  C5, as the claim states it: the colour of an entity should be the classification of the
  report's registration and depend on nothing else in the report. A report with
  registration G0042 and its own \<open>color\<close> field green gives a green entity, while the
  classification of G0042 is red.
\<close>

theorem color_field_counterexample:
  "map_option color
     (getDroneById
        (store_of (updateDrones (example_runtime 1000)
           (JArr [JObj [(''id'', JStr ''d1''), (''position'', example_position),
                        (''registration'', JStr ''G0042''), (''color'', JStr ''green'')]])
           initial_store))
        (JStr ''d1''))
     = Some (JStr ''green'')
   \<and> getColor (JStr ''G0042'') = JStr ''red''"
  by (simp add: eval_defs)

text \<open>
  C5, amended: after a call of \<open>updateDrones\<close> that returns, the entity of every id the
  batch reports has the colour of the last report for that id, which is the report's own
  \<open>color\<close> when that is truthy and otherwise the classification of its registration
  (top-level, else \<open>properties.registration\<close>); the entity of every other id is as it
  was. A call that throws, and the selection and connection actions, leave all entities as
  they were.
\<close>

theorem color_follows_last_report:
  "(\<forall>st'. updateDrones rt data st = Done st' \<longrightarrow>
      (\<forall>k. k \<notin> droneId_of ` set (reports data) \<longrightarrow> getDroneById st' k = getDroneById st k)
      \<and> (\<forall>k \<in> droneId_of ` set (reports data).
            \<exists>e. getDroneById st' k = Some e
              \<and> color e = report_color (last (filter (\<lambda>r. droneId_of r = k) (reports data)))))
   \<and> (\<forall>err st'. updateDrones rt data st = Threw err st' \<longrightarrow> drones st' = drones st)
   \<and> drones (selectDrone k0 st) = drones st
   \<and> drones (clearSelection st) = drones st
   \<and> drones (setConnectionStatus s st) = drones st"
proof -
  have returned: "(\<forall>k. k \<notin> droneId_of ` set (reports data) \<longrightarrow> getDroneById st' k = getDroneById st k)
      \<and> (\<forall>k \<in> droneId_of ` set (reports data).
            \<exists>e. getDroneById st' k = Some e
              \<and> color e = report_color (last (filter (\<lambda>r. droneId_of r = k) (reports data))))"
    if d: "updateDrones rt data st = Done st'" for st'
  proof -
    from d obtain rs maps' where rs: "reports_of data = Inr rs"
      and m: "forEach_drone rt 0 rs (drones st, dronePaths st) = Inr maps'"
      and st': "drones st' = fst maps'"
      by (auto simp: updateDrones_def set_state_def no_change_def split: sum.splits prod.splits)
    from rs have r: "reports data = rs" by (simp add: reports_def)
    have a: "getDroneById st' k = getDroneById st k" if "k \<notin> droneId_of ` set rs" for k
      using forEach_drone_others [OF m that] by (simp add: getDroneById_def st')
    have b: "\<exists>e. getDroneById st' k = Some e
              \<and> color e = report_color (last (filter (\<lambda>r. droneId_of r = k) rs))"
      if "k \<in> droneId_of ` set rs" for k
    proof -
      from that have "filter (\<lambda>x. droneId_of x = k) rs \<noteq> []"
        by (auto simp: filter_empty_conv)
      from forEach_drone_last [OF m this] show ?thesis
        by (auto simp: getDroneById_def st' dest: droneData_of_fields)
    qed
    from a b show ?thesis unfolding r by blast
  qed
  have threw: "drones st' = drones st" if "updateDrones rt data st = Threw err st'" for err st'
    using that by (auto simp: updateDrones_def split: sum.splits prod.splits)
  have "drones (selectDrone k0 st) = drones st" "drones (clearSelection st) = drones st"
    "drones (setConnectionStatus s st) = drones st"
    by (simp_all add: selectDrone_def clearSelection_def setConnectionStatus_def set_state_def
        no_change_def)
  with returned threw show ?thesis by blast
qed

theorem color_follows_last_report_witness:
  "\<exists>st'. updateDrones (example_runtime 1000)
           (JArr [JObj [(''id'', JStr ''d1''), (''position'', example_position),
                        (''registration'', JStr ''B0042'')],
                  JObj [(''id'', JStr ''d2''), (''position'', example_position),
                        (''registration'', JStr ''G0042''), (''color'', JStr ''green'')]])
           initial_store = Done st'
     \<and> map_option color (getDroneById st' (JStr ''d1'')) = Some (JStr ''green'')
     \<and> map_option color (getDroneById st' (JStr ''d2'')) = Some (JStr ''green'')
     \<and> getDroneById st' (JStr ''d3'') = None"
proof -
  let ?r1 = "JObj [(''id'', JStr ''d1''), (''position'', example_position),
                        (''registration'', JStr ''B0042'')]"
  let ?r2 = "JObj [(''id'', JStr ''d2''), (''position'', example_position),
                        (''registration'', JStr ''G0042''), (''color'', JStr ''green'')]"
  have ids: "droneId_of ?r1 = JStr ''d1''" "droneId_of ?r2 = JStr ''d2''"
    by (simp_all add: droneId_of_def js_or_def)
  have cols: "report_color ?r1 = JStr ''green''" "report_color ?r2 = JStr ''green''"
    by (simp_all add: report_color_def getColor_def startsWith_def)
  have "batch_ok (JArr [?r1, ?r2])"
    by (simp add: batch_ok_JArr report_ok_def nullish_def example_position_def droneId_of_def
        js_or_def)
  from updateDrones_ok_Done [OF this, of "example_runtime 1000" initial_store]
  obtain st' where d: "updateDrones (example_runtime 1000) (JArr [?r1, ?r2]) initial_store = Done st'"
    by blast
  from color_follows_last_report [of "example_runtime 1000" "JArr [?r1, ?r2]" initial_store] d
  have a: "\<forall>k. k \<notin> droneId_of ` set (reports (JArr [?r1, ?r2])) \<longrightarrow>
             getDroneById st' k = getDroneById initial_store k"
    and b: "\<forall>k \<in> droneId_of ` set (reports (JArr [?r1, ?r2])).
            \<exists>e. getDroneById st' k = Some e
              \<and> color e = report_color (last (filter (\<lambda>r. droneId_of r = k) (reports (JArr [?r1, ?r2]))))"
    by blast+
  from a have "getDroneById st' (JStr ''d3'') = None"
    by (simp add: reports_JArr ids getDroneById_def initial_store_def)
  moreover from b have "map_option color (getDroneById st' (JStr ''d1'')) = Some (JStr ''green'')"
    "map_option color (getDroneById st' (JStr ''d2'')) = Some (JStr ''green'')"
    by (auto simp: reports_JArr ids cols)
  ultimately show ?thesis using d by blast
qed

section \<open>Properties of the telemetry defaults\<close>

text \<open>
  A field that is absent, or falsy, at the top level and in \<open>properties\<close> gets the
  default; a truthy top-level field is stored as it is.
\<close>

lemma field_or_absent:
  "\<not> truthy (js_get r f) \<Longrightarrow> \<not> truthy (js_get (js_get r ''properties'') f) \<Longrightarrow> field_or r f d = d"
  by (simp add: field_or_def js_or_def)

lemma field_or_present: "truthy (js_get r f) \<Longrightarrow> field_or r f d = js_get r f"
  by (simp add: field_or_def js_or_def)

text \<open>
  C6. A field present in a report should be stored with exactly the report's value. A
  report with \<open>battery: 0\<close> gives an entity with battery 100: \<open>||\<close> takes the default
  for every falsy value, not only for an absent one.
\<close>

theorem battery_zero_stored_as_100:
  "map_option battery
     (getDroneById
        (store_of (updateDrones rt
           (JArr [JObj [(''id'', JStr ''d1''), (''position'', example_position),
                        (''battery'', JNum (Fin 0))]])
           initial_store))
        (JStr ''d1''))
   = Some (JNum (Fin 100))"
  by (simp add: eval_defs)

section \<open>Properties of the clock fields\<close>

lemma entity_clock_sound: "entity_clock t e \<Longrightarrow> entity_sound e"
  by (simp add: entity_clock_def entity_sound_def)

lemma all_clock_sound: "all_clock t ds \<Longrightarrow> all_sound ds"
  by (auto simp: all_clock_def all_sound_def intro: entity_clock_sound)

lemma entity_clock_mono: "entity_clock t e \<Longrightarrow> t \<le> t' \<Longrightarrow> entity_clock t' e"
  by (simp add: entity_clock_def)

lemma all_clock_mono: "all_clock t ds \<Longrightarrow> t \<le> t' \<Longrightarrow> all_clock t' ds"
  by (auto simp: all_clock_def intro: entity_clock_mono)

lemma all_clock_map_of: "all_clock t ds \<Longrightarrow> map_of ds k = Some e \<Longrightarrow> entity_clock t e"
  by (auto simp: all_clock_def dest!: map_of_SomeD)

lemma all_sound_map_of: "all_sound ds \<Longrightarrow> map_of ds k = Some e \<Longrightarrow> entity_sound e"
  by (auto simp: all_sound_def dest!: map_of_SomeD)

lemma all_clock_update:
  "all_clock t ds \<Longrightarrow> entity_clock t e \<Longrightarrow> all_clock t (AList.update k e ds)"
  using set_update_subset [of k e ds] by (auto simp: all_clock_def)

lemma all_sound_update:
  "all_sound ds \<Longrightarrow> entity_sound e \<Longrightarrow> all_sound (AList.update k e ds)"
  using set_update_subset [of k e ds] by (auto simp: all_sound_def)

text \<open>The clock fields of the entity the loop body builds.\<close>

lemma droneData_of_clock_fields:
  assumes "droneData_of rt i r k pos ex = Inr dd"
  shows "lastSeen dd = Date_now rt"
    and "firstSeen dd = (case ex of None \<Rightarrow> Date_now rt
                         | Some e \<Rightarrow> if firstSeen e \<noteq> 0 then firstSeen e else Date_now rt)"
    and "flightTime dd = (case ex of None \<Rightarrow> 0 | Some e \<Rightarrow> Date_now rt - firstSeen e)"
  using assms by (auto simp: droneData_of_def split: sum.splits)

text \<open>
  \<open>existingDrone?.firstSeen || currentTime\<close> keeps a first-seen time that is not 0; the
  clock reads 0 only at the epoch itself.
\<close>

lemma droneData_of_firstSeen_zero:
  "droneData_of rt i r k pos (Some e) = Inr dd \<Longrightarrow> firstSeen e = 0 \<Longrightarrow>
   firstSeen dd = Date_now rt"
  by (simp add: droneData_of_clock_fields)

lemma droneData_of_new:
  assumes "droneData_of rt i r k pos None = Inr dd"
  shows "firstSeen dd = Date_now rt" and "flightTime dd = 0"
    and "0 < Date_now rt \<Longrightarrow> entity_clock (Date_now rt) dd"
  using droneData_of_clock_fields [OF assms] by (simp_all add: entity_clock_def)

lemma droneData_of_old_sound:
  assumes "droneData_of rt i r k pos (Some e) = Inr dd" "entity_sound e"
  shows "firstSeen dd = firstSeen e" and "entity_sound dd"
  using droneData_of_clock_fields [OF assms(1)] assms(2) by (simp_all add: entity_sound_def)

lemma droneData_of_old_clock:
  assumes "droneData_of rt i r k pos (Some e) = Inr dd" "entity_clock (Date_now rt) e"
  shows "flightTime e \<le> flightTime dd" and "entity_clock (Date_now rt) dd"
  using droneData_of_clock_fields [OF assms(1)] assms(2) by (simp_all add: entity_clock_def)

lemma droneData_of_sound:
  assumes "droneData_of rt i r k pos (map_of ds k') = Inr dd" "0 < Date_now rt" "all_sound ds"
  shows "entity_sound dd"
proof (cases "map_of ds k'")
  case None
  with assms(1) have "droneData_of rt i r k pos None = Inr dd" by simp
  from droneData_of_new(3) [OF this assms(2)] show ?thesis by (rule entity_clock_sound)
next
  case (Some e)
  with assms(1) have "droneData_of rt i r k pos (Some e) = Inr dd" by simp
  moreover from assms(3) Some have "entity_sound e" by (rule all_sound_map_of)
  ultimately show ?thesis by (rule droneData_of_old_sound)
qed

lemma droneData_of_clock:
  assumes "droneData_of rt i r k pos (map_of ds k') = Inr dd" "0 < Date_now rt"
    "all_clock (Date_now rt) ds"
  shows "entity_clock (Date_now rt) dd"
proof (cases "map_of ds k'")
  case None
  with assms(1) have "droneData_of rt i r k pos None = Inr dd" by simp
  from droneData_of_new(3) [OF this assms(2)] show ?thesis .
next
  case (Some e)
  with assms(1) have "droneData_of rt i r k pos (Some e) = Inr dd" by simp
  moreover from assms(3) Some have "entity_clock (Date_now rt) e" by (rule all_clock_map_of)
  ultimately show ?thesis by (rule droneData_of_old_clock)
qed

text \<open>
  The loop keeps the clock fields sound and every first-seen time it finds, and gives an
  id it creates the time of the batch.
\<close>

lemma forEach_drone_sound:
  "forEach_drone rt i rs maps = Inr maps' \<Longrightarrow> 0 < Date_now rt \<Longrightarrow> all_sound (fst maps) \<Longrightarrow>
   all_sound (fst maps')
   \<and> (\<forall>k e. map_of (fst maps) k = Some e \<longrightarrow>
          (\<exists>e'. map_of (fst maps') k = Some e' \<and> firstSeen e' = firstSeen e))
   \<and> (\<forall>k e'. map_of (fst maps) k = None \<longrightarrow> map_of (fst maps') k = Some e' \<longrightarrow>
          firstSeen e' = Date_now rt)"
proof (induction rs arbitrary: i maps)
  case Nil
  then show ?case by auto
next
  case (Cons r rs)
  from Cons.prems(1) obtain dd pp where step: "forEach_drone rt (Suc i) rs
       (AList.update (droneId_of r) dd (fst maps), AList.update (droneId_of r) pp (snd maps))
     = Inr maps'"
    and dd: "droneData_of rt i r (droneId_of r) (position_value r) (map_of (fst maps) (droneId_of r))
               = Inr dd"
    by (rule forEach_drone_step)
  let ?ds1 = "AList.update (droneId_of r) dd (fst maps)"
  have dds: "entity_sound dd"
    using dd Cons.prems(2,3) by (rule droneData_of_sound)
  with Cons.prems(3) have c1: "all_sound ?ds1" by (rule all_sound_update)
  from Cons.IH [OF step Cons.prems(2)] c1
  have ih1: "all_sound (fst maps')"
    and ih2: "\<And>k e. map_of ?ds1 k = Some e \<Longrightarrow>
          \<exists>e'. map_of (fst maps') k = Some e' \<and> firstSeen e' = firstSeen e"
    and ih3: "\<And>k e'. map_of ?ds1 k = None \<Longrightarrow> map_of (fst maps') k = Some e' \<Longrightarrow>
          firstSeen e' = Date_now rt"
    by auto
  have old: "\<exists>e'. map_of (fst maps') k = Some e' \<and> firstSeen e' = firstSeen e"
    if e: "map_of (fst maps) k = Some e" for k e
  proof (cases "k = droneId_of r")
    case True
    from all_sound_map_of [OF Cons.prems(3) e] have es: "entity_sound e" .
    from True e dd have dd': "droneData_of rt i r (droneId_of r) (position_value r) (Some e) = Inr dd"
      by simp
    from True have "map_of ?ds1 k = Some dd" by (simp add: update_conv')
    from ih2 [OF this] obtain e' where "map_of (fst maps') k = Some e'"
      "firstSeen e' = firstSeen dd" by blast
    with droneData_of_old_sound(1) [OF dd' es] show ?thesis by auto
  next
    case False
    with e have "map_of ?ds1 k = Some e" by (simp add: update_conv')
    from ih2 [OF this] show ?thesis .
  qed
  have new: "firstSeen e' = Date_now rt"
    if n: "map_of (fst maps) k = None" and s: "map_of (fst maps') k = Some e'" for k e'
  proof (cases "k = droneId_of r")
    case True
    with n dd have dd': "droneData_of rt i r (droneId_of r) (position_value r) None = Inr dd"
      by simp
    from True have "map_of ?ds1 k = Some dd" by (simp add: update_conv')
    from ih2 [OF this] s have "firstSeen e' = firstSeen dd" by auto
    with droneData_of_new(1) [OF dd'] show ?thesis by simp
  next
    case False
    with n have "map_of ?ds1 k = None" by (simp add: update_conv')
    from ih3 [OF this s] show ?thesis .
  qed
  from ih1 old new show ?case by blast
qed

text \<open>
  When the clock does not run backwards, the loop also keeps every entity first seen not
  after it was last seen, and no flight time decreases.
\<close>

lemma forEach_drone_clock:
  "forEach_drone rt i rs maps = Inr maps' \<Longrightarrow> 0 < Date_now rt \<Longrightarrow>
   all_clock (Date_now rt) (fst maps) \<Longrightarrow>
   all_clock (Date_now rt) (fst maps')
   \<and> (\<forall>k e. map_of (fst maps) k = Some e \<longrightarrow>
          (\<exists>e'. map_of (fst maps') k = Some e' \<and> flightTime e \<le> flightTime e'))"
proof (induction rs arbitrary: i maps)
  case Nil
  then show ?case by auto
next
  case (Cons r rs)
  from Cons.prems(1) obtain dd pp where step: "forEach_drone rt (Suc i) rs
       (AList.update (droneId_of r) dd (fst maps), AList.update (droneId_of r) pp (snd maps))
     = Inr maps'"
    and dd: "droneData_of rt i r (droneId_of r) (position_value r) (map_of (fst maps) (droneId_of r))
               = Inr dd"
    by (rule forEach_drone_step)
  let ?ds1 = "AList.update (droneId_of r) dd (fst maps)"
  have ddc: "entity_clock (Date_now rt) dd"
    using dd Cons.prems(2,3) by (rule droneData_of_clock)
  with Cons.prems(3) have c1: "all_clock (Date_now rt) ?ds1" by (rule all_clock_update)
  from Cons.IH [OF step Cons.prems(2)] c1
  have ih1: "all_clock (Date_now rt) (fst maps')"
    and ih2: "\<And>k e. map_of ?ds1 k = Some e \<Longrightarrow>
          \<exists>e'. map_of (fst maps') k = Some e' \<and> flightTime e \<le> flightTime e'"
    by auto
  have old: "\<exists>e'. map_of (fst maps') k = Some e' \<and> flightTime e \<le> flightTime e'"
    if e: "map_of (fst maps) k = Some e" for k e
  proof (cases "k = droneId_of r")
    case True
    from all_clock_map_of [OF Cons.prems(3) e] have ec: "entity_clock (Date_now rt) e" .
    from True e dd have dd': "droneData_of rt i r (droneId_of r) (position_value r) (Some e) = Inr dd"
      by simp
    from True have "map_of ?ds1 k = Some dd" by (simp add: update_conv')
    from ih2 [OF this] obtain e' where "map_of (fst maps') k = Some e'"
      "flightTime dd \<le> flightTime e'" by blast
    with droneData_of_old_clock(1) [OF dd' ec] show ?thesis by auto
  next
    case False
    with e have "map_of ?ds1 k = Some e" by (simp add: update_conv')
    from ih2 [OF this] show ?thesis .
  qed
  from ih1 old show ?case by blast
qed

text \<open>One call of \<open>updateDrones\<close>, whatever its outcome.\<close>

lemma updateDrones_drones_cases:
  "drones (store_of (updateDrones rt data st)) = drones st
   \<or> (\<exists>rs maps'. forEach_drone rt 0 rs (drones st, dronePaths st) = Inr maps'
         \<and> drones (store_of (updateDrones rt data st)) = fst maps')"
proof (cases "reports_of data")
  case (Inl e)
  then show ?thesis by (simp add: updateDrones_def)
next
  case (Inr rs)
  show ?thesis
  proof (cases "forEach_drone rt 0 rs (drones st, dronePaths st)")
    case (Inl em)
    with Inr show ?thesis by (cases em) (simp add: updateDrones_def)
  next
    case inr: (Inr m)
    with Inr have "drones (store_of (updateDrones rt data st)) = fst m"
      by (simp add: updateDrones_def set_state_def no_change_def)
    with inr show ?thesis by blast
  qed
qed

lemma updateDrones_sound:
  assumes c: "clock_sound st" and t: "0 < Date_now rt"
  shows "clock_sound (store_of (updateDrones rt data st))"
    and "getDroneById st k = Some e \<Longrightarrow>
           \<exists>e'. getDroneById (store_of (updateDrones rt data st)) k = Some e'
             \<and> firstSeen e' = firstSeen e"
    and "getDroneById st k = None \<Longrightarrow>
           getDroneById (store_of (updateDrones rt data st)) k = Some e' \<Longrightarrow>
           firstSeen e' = Date_now rt"
proof -
  from c have c': "all_sound (drones st)" by (simp add: clock_sound_def)
  have "clock_sound (store_of (updateDrones rt data st))
    \<and> (getDroneById st k = Some e \<longrightarrow>
           (\<exists>e'. getDroneById (store_of (updateDrones rt data st)) k = Some e'
             \<and> firstSeen e' = firstSeen e))
    \<and> (getDroneById st k = None \<longrightarrow>
           getDroneById (store_of (updateDrones rt data st)) k = Some e' \<longrightarrow>
           firstSeen e' = Date_now rt)"
    using updateDrones_drones_cases [of rt data st]
  proof (elim disjE exE conjE)
    assume "drones (store_of (updateDrones rt data st)) = drones st"
    with c' show ?thesis by (simp add: clock_sound_def getDroneById_def)
  next
    fix rs maps'
    assume m: "forEach_drone rt 0 rs (drones st, dronePaths st) = Inr maps'"
      and d: "drones (store_of (updateDrones rt data st)) = fst maps'"
    from forEach_drone_sound [OF m t] c' show ?thesis
      by (simp add: clock_sound_def getDroneById_def d)
  qed
  then show "clock_sound (store_of (updateDrones rt data st))"
    and "getDroneById st k = Some e \<Longrightarrow>
           \<exists>e'. getDroneById (store_of (updateDrones rt data st)) k = Some e'
             \<and> firstSeen e' = firstSeen e"
    and "getDroneById st k = None \<Longrightarrow>
           getDroneById (store_of (updateDrones rt data st)) k = Some e' \<Longrightarrow>
           firstSeen e' = Date_now rt"
    by blast+
qed

lemma updateDrones_clock:
  assumes c: "clock_ok t st" and t: "t \<le> Date_now rt" "0 < Date_now rt"
  shows "clock_ok (Date_now rt) (store_of (updateDrones rt data st))"
    and "getDroneById st k = Some e \<Longrightarrow>
           \<exists>e'. getDroneById (store_of (updateDrones rt data st)) k = Some e'
             \<and> flightTime e \<le> flightTime e'"
proof -
  from c t(1) have c': "all_clock (Date_now rt) (drones st)"
    unfolding clock_ok_def by (rule all_clock_mono)
  have "clock_ok (Date_now rt) (store_of (updateDrones rt data st))
    \<and> (getDroneById st k = Some e \<longrightarrow>
           (\<exists>e'. getDroneById (store_of (updateDrones rt data st)) k = Some e'
             \<and> flightTime e \<le> flightTime e'))"
    using updateDrones_drones_cases [of rt data st]
  proof (elim disjE exE conjE)
    assume "drones (store_of (updateDrones rt data st)) = drones st"
    with c' show ?thesis by (simp add: clock_ok_def getDroneById_def)
  next
    fix rs maps'
    assume m: "forEach_drone rt 0 rs (drones st, dronePaths st) = Inr maps'"
      and d: "drones (store_of (updateDrones rt data st)) = fst maps'"
    from forEach_drone_clock [OF m t(2)] c' show ?thesis
      by (simp add: clock_ok_def getDroneById_def d)
  qed
  then show "clock_ok (Date_now rt) (store_of (updateDrones rt data st))"
    and "getDroneById st k = Some e \<Longrightarrow>
           \<exists>e'. getDroneById (store_of (updateDrones rt data st)) k = Some e'
             \<and> flightTime e \<le> flightTime e'"
    by blast+
qed

text \<open>A run of batches.\<close>

lemma apply_batches_sound:
  assumes "clock_sound st" "times_positive bs"
  shows "clock_sound (apply_batches bs st)
   \<and> (\<forall>k e. getDroneById st k = Some e \<longrightarrow>
         (\<exists>e'. getDroneById (apply_batches bs st) k = Some e' \<and> firstSeen e' = firstSeen e))"
proof -
  have "\<forall>s0. clock_sound s0 \<longrightarrow> times_positive bs \<longrightarrow>
     clock_sound (apply_batches bs s0)
     \<and> (\<forall>k e. getDroneById s0 k = Some e \<longrightarrow>
         (\<exists>e'. getDroneById (apply_batches bs s0) k = Some e' \<and> firstSeen e' = firstSeen e))"
  proof (induction bs)
    case Nil
    then show ?case by simp
  next
    case (Cons b bs)
    show ?case
    proof (intro allI impI)
      fix s0
      assume c: "clock_sound s0" and tp: "times_positive (b # bs)"
      let ?s1 = "store_of (updateDrones (fst b) (snd b) s0)"
      from tp have t: "0 < Date_now (fst b)" and ts: "times_positive bs"
        by (simp_all add: times_positive_def)
      note step = updateDrones_sound [OF c t, where data = "snd b"]
      from Cons.IH step(1) ts
      have ih1: "clock_sound (apply_batches bs ?s1)"
        and ih2: "\<And>k e. getDroneById ?s1 k = Some e \<Longrightarrow>
           \<exists>e'. getDroneById (apply_batches bs ?s1) k = Some e' \<and> firstSeen e' = firstSeen e"
        by blast+
      have "\<exists>e'. getDroneById (apply_batches (b # bs) s0) k = Some e' \<and> firstSeen e' = firstSeen e"
        if "getDroneById s0 k = Some e" for k e
      proof -
        from step(2) [OF that] obtain e1 where e1: "getDroneById ?s1 k = Some e1"
          "firstSeen e1 = firstSeen e" by blast
        from ih2 [OF e1(1)] e1(2) show ?thesis by auto
      qed
      with ih1 show "clock_sound (apply_batches (b # bs) s0)
        \<and> (\<forall>k e. getDroneById s0 k = Some e \<longrightarrow>
         (\<exists>e'. getDroneById (apply_batches (b # bs) s0) k = Some e' \<and> firstSeen e' = firstSeen e))"
        by simp
    qed
  qed
  with assms show ?thesis by blast
qed

lemma apply_batches_clock:
  assumes "clock_ok t st" "times_ok t bs"
  shows "\<forall>k e. getDroneById st k = Some e \<longrightarrow>
         (\<exists>e'. getDroneById (apply_batches bs st) k = Some e' \<and> flightTime e \<le> flightTime e')"
proof -
  have "\<forall>t s0. clock_ok t s0 \<longrightarrow> times_ok t bs \<longrightarrow>
     (\<forall>k e. getDroneById s0 k = Some e \<longrightarrow>
         (\<exists>e'. getDroneById (apply_batches bs s0) k = Some e' \<and> flightTime e \<le> flightTime e'))"
  proof (induction bs)
    case Nil
    then show ?case by simp
  next
    case (Cons b bs)
    show ?case
    proof (intro allI impI)
      fix t0 s0 k e
      assume c: "clock_ok t0 s0" and tk: "times_ok t0 (b # bs)"
        and e: "getDroneById s0 k = Some e"
      let ?s1 = "store_of (updateDrones (fst b) (snd b) s0)"
      from tk have t: "t0 \<le> Date_now (fst b)" "0 < Date_now (fst b)"
        and ts: "times_ok (Date_now (fst b)) bs" by simp_all
      note step = updateDrones_clock [OF c t, where data = "snd b"]
      from step(2) [OF e] obtain e1 where e1: "getDroneById ?s1 k = Some e1"
        "flightTime e \<le> flightTime e1" by blast
      from Cons.IH step(1) ts e1(1) obtain e' where
        "getDroneById (apply_batches bs ?s1) k = Some e'" "flightTime e1 \<le> flightTime e'"
        by blast
      with e1(2) show "\<exists>e'. getDroneById (apply_batches (b # bs) s0) k = Some e'
         \<and> flightTime e \<le> flightTime e'"
        by auto
    qed
  qed
  with assms show ?thesis by blast
qed

text \<open>
  C7. Take a store whose clock fields are sound (the initial store is one) and a run of
  batches at positive times. An id the first batch creates is first seen at the time of
  that batch, and still so after the whole run. An entity the store had keeps its
  first-seen time through the whole run. After the run the flight time of every entity is
  its last-seen time minus its first-seen time. When the first call returns, every id it
  reports is last seen at the time of the batch, with that flight time. And when, in
  addition, the times do not decrease from a time \<open>t\<close> the store's entities were last
  seen by, no flight time decreases over the run, and an entity the first batch updates
  later than it was last seen has a positive flight time.
\<close>

theorem firstSeen_fixed_flightTime_derived:
  assumes "clock_sound st" and "times_positive (b # bs)"
  shows
    "(\<forall>k e1. getDroneById st k = None
         \<and> getDroneById (store_of (updateDrones (fst b) (snd b) st)) k = Some e1 \<longrightarrow>
         firstSeen e1 = Date_now (fst b)
         \<and> (\<exists>e2. getDroneById (apply_batches (b # bs) st) k = Some e2
                \<and> firstSeen e2 = Date_now (fst b)))
     \<and> (\<forall>k e. getDroneById st k = Some e \<longrightarrow>
           (\<exists>e2. getDroneById (apply_batches (b # bs) st) k = Some e2
              \<and> firstSeen e2 = firstSeen e))
     \<and> (\<forall>k e2. getDroneById (apply_batches (b # bs) st) k = Some e2 \<longrightarrow>
           flightTime e2 = lastSeen e2 - firstSeen e2)
     \<and> (\<forall>st1. updateDrones (fst b) (snd b) st = Done st1 \<longrightarrow>
           (\<forall>r \<in> set (reports (snd b)).
              \<exists>e1. getDroneById st1 (droneId_of r) = Some e1
                \<and> lastSeen e1 = Date_now (fst b)
                \<and> flightTime e1 = lastSeen e1 - firstSeen e1))
     \<and> (clock_ok t st \<and> times_ok t (b # bs) \<longrightarrow>
           (\<forall>k e. getDroneById st k = Some e \<longrightarrow>
              (\<exists>e2. getDroneById (apply_batches (b # bs) st) k = Some e2
                 \<and> flightTime e \<le> flightTime e2))
           \<and> (\<forall>st1. updateDrones (fst b) (snd b) st = Done st1 \<longrightarrow>
                 (\<forall>r \<in> set (reports (snd b)). \<forall>e.
                    getDroneById st (droneId_of r) = Some e \<and> lastSeen e < Date_now (fst b) \<longrightarrow>
                    (\<exists>e1. getDroneById st1 (droneId_of r) = Some e1 \<and> 0 < flightTime e1))))"
proof -
  let ?st1 = "store_of (updateDrones (fst b) (snd b) st)"
  let ?now = "Date_now (fst b)"
  from assms(2) have t: "0 < ?now" and ts: "times_positive bs"
    by (simp_all add: times_positive_def)
  note step = updateDrones_sound [OF assms(1) t, where data = "snd b"]
  note later = apply_batches_sound [OF step(1) ts]
  note run = apply_batches_sound [OF assms]
  have first: "firstSeen e1 = ?now
         \<and> (\<exists>e2. getDroneById (apply_batches (b # bs) st) k = Some e2 \<and> firstSeen e2 = ?now)"
    if "getDroneById st k = None \<and> getDroneById ?st1 k = Some e1" for k e1
  proof -
    from that have n: "getDroneById st k = None" and s: "getDroneById ?st1 k = Some e1"
      by simp_all
    from step(3) [OF n s] have f: "firstSeen e1 = ?now" .
    from later s obtain e2 where "getDroneById (apply_batches bs ?st1) k = Some e2"
      "firstSeen e2 = firstSeen e1" by blast
    with f show ?thesis by simp
  qed
  have fixed: "\<exists>e2. getDroneById (apply_batches (b # bs) st) k = Some e2
              \<and> firstSeen e2 = firstSeen e"
    if "getDroneById st k = Some e" for k e
    using run that by blast
  have derived: "flightTime e2 = lastSeen e2 - firstSeen e2"
    if "getDroneById (apply_batches (b # bs) st) k = Some e2" for k e2
  proof -
    from run have "all_sound (drones (apply_batches (b # bs) st))"
      by (simp add: clock_sound_def)
    from all_sound_map_of [OF this] that have "entity_sound e2"
      by (simp add: getDroneById_def)
    then show ?thesis by (simp add: entity_sound_def)
  qed
  have updated: "\<exists>e1. getDroneById st1 (droneId_of r) = Some e1
                \<and> lastSeen e1 = ?now \<and> flightTime e1 = lastSeen e1 - firstSeen e1"
    if d: "updateDrones (fst b) (snd b) st = Done st1" and r: "r \<in> set (reports (snd b))"
    for st1 r
  proof -
    from updateDrones_Done(2) [OF d] obtain maps' where
      m: "forEach_drone (fst b) 0 (reports (snd b)) (drones st, dronePaths st) = Inr maps'"
      and st1: "drones st1 = fst maps'"
      by auto
    from r have "filter (\<lambda>x. droneId_of x = droneId_of r) (reports (snd b)) \<noteq> []"
      by (auto simp: filter_empty_conv)
    from forEach_drone_last [OF m this] obtain j ex dd where
      dd: "droneData_of (fst b) j
             (last (filter (\<lambda>x. droneId_of x = droneId_of r) (reports (snd b)))) (droneId_of r)
             (position_value (last (filter (\<lambda>x. droneId_of x = droneId_of r) (reports (snd b)))))
             ex = Inr dd"
      and s: "map_of (fst maps') (droneId_of r) = Some dd"
      by blast
    from s have g: "getDroneById st1 (droneId_of r) = Some dd"
      by (simp add: getDroneById_def st1)
    from step(1) d have "all_sound (drones st1)" by (simp add: clock_sound_def)
    from all_sound_map_of [OF this] g have "entity_sound dd" by (simp add: getDroneById_def)
    with g droneData_of_fields(2) [OF dd] show ?thesis by (simp add: entity_sound_def)
  qed
  have ordered: "(\<forall>k e. getDroneById st k = Some e \<longrightarrow>
              (\<exists>e2. getDroneById (apply_batches (b # bs) st) k = Some e2
                 \<and> flightTime e \<le> flightTime e2))
           \<and> (\<forall>st1. updateDrones (fst b) (snd b) st = Done st1 \<longrightarrow>
                 (\<forall>r \<in> set (reports (snd b)). \<forall>e.
                    getDroneById st (droneId_of r) = Some e \<and> lastSeen e < ?now \<longrightarrow>
                    (\<exists>e1. getDroneById st1 (droneId_of r) = Some e1 \<and> 0 < flightTime e1)))"
    if c: "clock_ok t st \<and> times_ok t (b # bs)"
  proof -
    from c have ck: "clock_ok t st" and tk: "times_ok t (b # bs)" by simp_all
    note mono = apply_batches_clock [OF ck tk]
    have positive: "\<exists>e1. getDroneById st1 (droneId_of r) = Some e1 \<and> 0 < flightTime e1"
      if d: "updateDrones (fst b) (snd b) st = Done st1" and r: "r \<in> set (reports (snd b))"
        and e: "getDroneById st (droneId_of r) = Some e \<and> lastSeen e < ?now"
      for st1 r e
    proof -
      from updated [OF d r] obtain e1 where e1: "getDroneById st1 (droneId_of r) = Some e1"
        "lastSeen e1 = ?now" "flightTime e1 = lastSeen e1 - firstSeen e1" by blast
      from e have g: "getDroneById st (droneId_of r) = Some e" and l: "lastSeen e < ?now"
        by simp_all
      from step(2) [OF g] e1(1) d have f: "firstSeen e1 = firstSeen e" by simp
      from ck g have "entity_clock t e"
        by (auto simp: clock_ok_def getDroneById_def dest: all_clock_map_of)
      then have "firstSeen e \<le> lastSeen e" by (simp add: entity_clock_def)
      with e1 f l show ?thesis by simp
    qed
    from mono positive show ?thesis by blast
  qed
  show ?thesis
    using first fixed derived updated ordered
    by (intro conjI allI impI ballI) blast+
qed

theorem firstSeen_fixed_flightTime_derived_witness:
  "clock_sound initial_store
   \<and> times_positive [(example_runtime 1000, JArr [example_report ''d1'']),
                      (example_runtime 3000, JArr [example_report ''d1''])]
   \<and> clock_ok 0 initial_store
   \<and> times_ok 0 [(example_runtime 1000, JArr [example_report ''d1'']),
                 (example_runtime 3000, JArr [example_report ''d1''])]
   \<and> getDroneById initial_store (JStr ''d1'') = None
   \<and> map_option firstSeen
        (getDroneById (store_of (updateDrones (example_runtime 1000) (JArr [example_report ''d1''])
           initial_store)) (JStr ''d1'')) = Some 1000
   \<and> (\<exists>e2. getDroneById
          (apply_batches [(example_runtime 1000, JArr [example_report ''d1'']),
                          (example_runtime 3000, JArr [example_report ''d1''])] initial_store)
          (JStr ''d1'') = Some e2
        \<and> firstSeen e2 = 1000 \<and> lastSeen e2 = 3000 \<and> flightTime e2 = 2000)"
proof -
  let ?b1 = "(example_runtime 1000, JArr [example_report ''d1''])"
  let ?b2 = "(example_runtime 3000, JArr [example_report ''d1''])"
  have c: "clock_sound initial_store"
    by (simp add: clock_sound_def all_sound_def initial_store_def)
  have tp: "times_positive [?b1, ?b2]" by (simp add: times_positive_def example_runtime_def)
  have ck: "clock_ok 0 initial_store"
    by (simp add: clock_ok_def all_clock_def initial_store_def)
  have ts: "times_ok 0 [?b1, ?b2]" by (simp add: example_runtime_def)
  have n: "getDroneById initial_store (JStr ''d1'') = None"
    by (simp add: getDroneById_def initial_store_def)
  have f: "map_option firstSeen
        (getDroneById (store_of (updateDrones (example_runtime 1000) (JArr [example_report ''d1''])
           initial_store)) (JStr ''d1'')) = Some 1000"
    by (simp add: eval_defs)
  have l: "map_option lastSeen (getDroneById (apply_batches [?b1, ?b2] initial_store) (JStr ''d1''))
             = Some 3000"
    by (simp add: eval_defs)
  from f obtain e1 where e1: "getDroneById (store_of (updateDrones (fst ?b1) (snd ?b1)
           initial_store)) (JStr ''d1'') = Some e1" by auto
  note inst = firstSeen_fixed_flightTime_derived [OF c tp, of 0]
  from inst n e1
  obtain e2 where e2: "getDroneById (apply_batches [?b1, ?b2] initial_store) (JStr ''d1'') = Some e2"
    "firstSeen e2 = Date_now (fst ?b1)" by blast
  from inst e2(1)
  have "flightTime e2 = lastSeen e2 - firstSeen e2" by blast
  with e2 l have "firstSeen e2 = 1000 \<and> lastSeen e2 = 3000 \<and> flightTime e2 = 2000"
    by (simp add: example_runtime_def)
  with c tp ck ts n f e2(1) show ?thesis by blast
qed

section \<open>Properties of the marker effect\<close>

lemmas marker_defs = update_markers_def add_marker_def placeable_def getDroneColor_def lowered_def
  popup_throws_def strict_eq_def example_env_def example_drones_def example_drones_status_5_def
  example_drones_unnamed_def example_marker_def ascii_lower_def

text \<open>
  C8, as the claim states it: the marker of an entity that persists between passes should
  be updated in place, never removed and created again. With a marker for drone d1 from
  the pass before and d1 still in the store, the pass removes that marker and adds a new one.
\<close>

theorem marker_rebuild_counterexample:
  "update_markers example_env True JNull example_drones [(JStr ''d1'', example_marker)]
     = (None, [(JStr ''d1'', example_marker)],
        [RemoveMarker (JStr ''d1''), AddMarker (JStr ''d1'') example_marker])
   \<and> map fst example_drones = [JStr ''d1'']"
  by (simp add: marker_defs eval_defs)

text \<open>
  A drone without a usable position is skipped. Any other drone gets a new marker, and a
  popup when it is the selected one, unless the body throws: before the marker is added,
  or after that and before it is put into the table.
\<close>

lemma add_marker_skip: "\<not> placeable d \<Longrightarrow> add_marker env cur d acc = Inr acc"
  by (simp add: add_marker_def)

lemma add_marker_placed:
  assumes "placeable d" "add_marker env cur d acc = Inr acc'"
  obtains m new where "acc' = (AList.update (drone_id d) m (fst acc),
      snd acc @ AddMarker (drone_id d) m # new)"
    and "new = [] \<or> new = [AddPopup (drone_id d)]"
  using assms
  by (auto simp: add_marker_def Let_def split: sum.splits option.splits if_splits)

lemma add_marker_thrown:
  assumes "add_marker env cur d acc = Inl (e, acc')"
  shows "placeable d" and "fst acc' = fst acc"
    and "snd acc' = snd acc \<or> (\<exists>m. snd acc' = snd acc @ [AddMarker (drone_id d) m])"
  using assms
  by (auto simp: add_marker_def Let_def split: sum.splits option.splits if_splits)

text \<open>
  The calls a pass adds to those made so far: no removal, and markers only for drones with
  a usable position.
\<close>

lemma add_markers_calls:
  "add_markers env cur ds acc = (err, ms', calls) \<Longrightarrow>
   \<exists>new. calls = snd acc @ new
     \<and> (\<forall>k. RemoveMarker k \<notin> set new)
     \<and> (\<forall>k m. AddMarker k m \<in> set new \<longrightarrow> k \<in> drone_id ` {d \<in> set ds. placeable d})"
proof (induction ds arbitrary: acc)
  case Nil
  then have "calls = snd acc @ []" by (cases acc) simp
  then show ?case by (intro exI [of _ "[]"]) simp
next
  case (Cons d ds)
  show ?case
  proof (cases "add_marker env cur d acc")
    case (Inl ea)
    obtain e acc1 where ea: "ea = (e, acc1)" by (cases ea)
    from Cons.prems Inl ea have acc1: "snd acc1 = calls" by auto
    from Inl ea have t: "add_marker env cur d acc = Inl (e, acc1)" by simp
    note th = add_marker_thrown [OF t]
    from th(3) have "calls = snd acc @ [] \<or> (\<exists>m. calls = snd acc @ [AddMarker (drone_id d) m])"
      unfolding acc1 by simp
    then show ?thesis
    proof
      assume "calls = snd acc @ []"
      then show ?thesis by (intro exI [of _ "[]"]) simp
    next
      assume "\<exists>m. calls = snd acc @ [AddMarker (drone_id d) m]"
      then obtain m where "calls = snd acc @ [AddMarker (drone_id d) m]" by blast
      with th(1) show ?thesis by (intro exI [of _ "[AddMarker (drone_id d) m]"]) simp
    qed
  next
    case (Inr acc1)
    with Cons.prems have rest: "add_markers env cur ds acc1 = (err, ms', calls)" by simp
    from Cons.IH [OF rest] obtain new where
      c: "calls = snd acc1 @ new" and nr: "\<forall>k. RemoveMarker k \<notin> set new"
      and am: "\<forall>k m. AddMarker k m \<in> set new \<longrightarrow> k \<in> drone_id ` {d \<in> set ds. placeable d}"
      by blast
    from am have am2: "\<forall>k m. AddMarker k m \<in> set new \<longrightarrow>
        k \<in> drone_id ` {x \<in> set (d # ds). placeable x}" by auto
    show ?thesis
    proof (cases "placeable d")
      case False
      with Inr have "acc1 = acc" by (simp add: add_marker_skip)
      with c nr am2 show ?thesis by (intro exI [of _ new]) simp
    next
      case True
      from add_marker_placed [OF True Inr] obtain m new1 where
        acc1: "acc1 = (AList.update (drone_id d) m (fst acc), snd acc @ AddMarker (drone_id d) m # new1)"
        and new1: "new1 = [] \<or> new1 = [AddPopup (drone_id d)]"
        by blast
      let ?new = "AddMarker (drone_id d) m # new1 @ new"
      have c': "calls = snd acc @ ?new" using c by (simp add: acc1)
      have nr': "\<forall>k. RemoveMarker k \<notin> set ?new" using nr new1 by auto
      have "drone_id d \<in> drone_id ` {x \<in> set (d # ds). placeable x}" using True by simp
      with am2 new1 have am': "\<forall>k m. AddMarker k m \<in> set ?new \<longrightarrow>
          k \<in> drone_id ` {x \<in> set (d # ds). placeable x}"
        by auto
      from c' nr' am' show ?thesis by (intro exI [of _ ?new] conjI)
    qed
  qed
qed

text \<open>Every marker of the table after a pass was in it at the start or was added by a call.\<close>

lemma add_markers_table:
  "add_markers env cur ds acc = (err, ms', calls) \<Longrightarrow> (k, m) \<in> set ms' \<Longrightarrow>
   (k, m) \<in> set (fst acc) \<or> AddMarker k m \<in> set calls"
proof (induction ds arbitrary: acc)
  case Nil
  then show ?case by (cases acc) simp
next
  case (Cons d ds)
  show ?case
  proof (cases "add_marker env cur d acc")
    case (Inl ea)
    obtain e acc1 where ea: "ea = (e, acc1)" by (cases ea)
    from Cons.prems(1) Inl ea have acc1: "fst acc1 = ms'" by auto
    from Inl ea have t: "add_marker env cur d acc = Inl (e, acc1)" by simp
    from add_marker_thrown(2) [OF t] Cons.prems(2) show ?thesis by (simp add: acc1)
  next
    case (Inr acc1)
    with Cons.prems have rest: "add_markers env cur ds acc1 = (err, ms', calls)" by simp
    from Cons.IH [OF rest Cons.prems(2)]
    have ih: "(k, m) \<in> set (fst acc1) \<or> AddMarker k m \<in> set calls" .
    from add_markers_calls [OF rest] have sub: "set (snd acc1) \<subseteq> set calls" by auto
    show ?thesis
    proof (cases "placeable d")
      case False
      with Inr have "acc1 = acc" by (simp add: add_marker_skip)
      with ih show ?thesis by simp
    next
      case True
      from add_marker_placed [OF True Inr] obtain m1 new1 where
        acc1: "acc1 = (AList.update (drone_id d) m1 (fst acc),
                 snd acc @ AddMarker (drone_id d) m1 # new1)"
        by blast
      from sub have in_calls: "AddMarker (drone_id d) m1 \<in> set calls" by (auto simp: acc1)
      from ih show ?thesis
      proof
        assume "(k, m) \<in> set (fst acc1)"
        with set_update_subset [of "drone_id d" m1 "fst acc"]
        have "(k, m) = (drone_id d, m1) \<or> (k, m) \<in> set (fst acc)" by (auto simp: acc1)
        with in_calls show ?thesis by auto
      next
        assume "AddMarker k m \<in> set calls"
        then show ?thesis by simp
      qed
    qed
  qed
qed

text \<open>
  A pass that returns has added a marker for every drone with a usable position, and its
  table has those drones as keys, besides the keys it started with.
\<close>

lemma add_markers_returns:
  "add_markers env cur ds acc = (None, ms', calls) \<Longrightarrow>
   fst ` set ms' = fst ` set (fst acc) \<union> drone_id ` {d \<in> set ds. placeable d}
   \<and> (\<forall>d \<in> set ds. placeable d \<longrightarrow> (\<exists>m. AddMarker (drone_id d) m \<in> set calls))"
proof (induction ds arbitrary: acc)
  case Nil
  then show ?case by (cases acc) auto
next
  case (Cons d ds)
  from Cons.prems obtain acc1 where a1: "add_marker env cur d acc = Inr acc1"
    and rest: "add_markers env cur ds acc1 = (None, ms', calls)"
    by (auto split: sum.splits prod.splits)
  from Cons.IH [OF rest] have
    keys: "fst ` set ms' = fst ` set (fst acc1) \<union> drone_id ` {d \<in> set ds. placeable d}"
    and each: "\<forall>d \<in> set ds. placeable d \<longrightarrow> (\<exists>m. AddMarker (drone_id d) m \<in> set calls)"
    by simp_all
  from add_markers_calls [OF rest] have sub: "set (snd acc1) \<subseteq> set calls" by auto
  show ?case
  proof (cases "placeable d")
    case False
    with a1 have "acc1 = acc" by (simp add: add_marker_skip)
    with keys each False show ?thesis by auto
  next
    case True
    from add_marker_placed [OF True a1] obtain m new1 where
      acc1: "acc1 = (AList.update (drone_id d) m (fst acc), snd acc @ AddMarker (drone_id d) m # new1)"
      by blast
    from sub have "AddMarker (drone_id d) m \<in> set calls" by (auto simp: acc1)
    then have here: "\<exists>m. AddMarker (drone_id d) m \<in> set calls" by blast
    have k: "fst ` set ms' = fst ` set (fst acc) \<union> drone_id ` {x \<in> set (d # ds). placeable x}"
      using keys True by (auto simp: acc1 fst_set_update)
    from each here have "\<forall>x \<in> set (d # ds). placeable x \<longrightarrow>
        (\<exists>m. AddMarker (drone_id x) m \<in> set calls)" by simp
    with k show ?thesis by simp
  qed
qed

text \<open>
  C8, amended: while the map is not loaded a pass does nothing. Once it is, every pass,
  whether it returns or throws, first removes every marker of the table, whether or not
  its drone is still in the store, and removes nothing else; it adds new markers only for
  drones of the store whose position has a truthy \<open>lat\<close> and \<open>lng\<close>; and every marker
  in the table afterwards was added in this pass, none is kept from the pass before. A
  pass that returns has added a new marker for each of those drones, and the table
  afterwards has exactly those drones as keys.
\<close>

theorem markers_rebuilt_each_pass:
  "update_markers env False cur ds ms = (None, ms, [])
   \<and> (update_markers env True cur ds ms = (err, ms', calls) \<longrightarrow>
        take (length ms) calls = map (\<lambda>(k, m). RemoveMarker k) ms
        \<and> (\<forall>k. RemoveMarker k \<in> set calls \<longleftrightarrow> k \<in> fst ` set ms)
        \<and> (\<forall>k m. AddMarker k m \<in> set calls \<longrightarrow>
               k \<in> drone_id ` {d \<in> set (map snd ds). placeable d})
        \<and> (\<forall>(k, m) \<in> set ms'. AddMarker k m \<in> set calls)
        \<and> (err = None \<longrightarrow>
              (\<forall>k. (\<exists>m. AddMarker k m \<in> set calls) \<longleftrightarrow>
                     k \<in> drone_id ` {d \<in> set (map snd ds). placeable d})
              \<and> fst ` set ms' = drone_id ` {d \<in> set (map snd ds). placeable d}))"
proof -
  have off: "update_markers env False cur ds ms = (None, ms, [])"
    by (simp add: update_markers_def)
  have on: "take (length ms) calls = map (\<lambda>(k, m). RemoveMarker k) ms
        \<and> (\<forall>k. RemoveMarker k \<in> set calls \<longleftrightarrow> k \<in> fst ` set ms)
        \<and> (\<forall>k m. AddMarker k m \<in> set calls \<longrightarrow>
               k \<in> drone_id ` {d \<in> set (map snd ds). placeable d})
        \<and> (\<forall>(k, m) \<in> set ms'. AddMarker k m \<in> set calls)
        \<and> (err = None \<longrightarrow>
              (\<forall>k. (\<exists>m. AddMarker k m \<in> set calls) \<longleftrightarrow>
                     k \<in> drone_id ` {d \<in> set (map snd ds). placeable d})
              \<and> fst ` set ms' = drone_id ` {d \<in> set (map snd ds). placeable d})"
    if "update_markers env True cur ds ms = (err, ms', calls)"
  proof -
    let ?removed = "map (\<lambda>(k, m). RemoveMarker k) ms"
    let ?ids = "drone_id ` {d \<in> set (map snd ds). placeable d}"
    from that have "add_markers env cur (map snd ds) ([], ?removed) = (err, ms', calls)"
      by (simp add: update_markers_def)
    then have run: "add_markers env cur (map snd ds) ([], ?removed) = (err, ms', calls)" .
    from add_markers_calls [OF run] obtain new where
      c: "calls = ?removed @ new" and nr: "\<forall>k. RemoveMarker k \<notin> set new"
      and am: "\<forall>k m. AddMarker k m \<in> set new \<longrightarrow> k \<in> ?ids"
      by auto
    have t: "take (length ms) calls = ?removed" by (simp add: c)
    have r: "\<forall>k. RemoveMarker k \<in> set calls \<longleftrightarrow> k \<in> fst ` set ms"
      using nr by (force simp: c)
    have nrm: "AddMarker k m \<notin> set ?removed" for k m by auto
    then have same: "AddMarker k m \<in> set calls \<longleftrightarrow> AddMarker k m \<in> set new" for k m
      unfolding c by simp
    have a: "\<forall>k m. AddMarker k m \<in> set calls \<longrightarrow> k \<in> ?ids"
      using am by (simp add: same)
    have b: "\<forall>(k, m) \<in> set ms'. AddMarker k m \<in> set calls"
      using add_markers_table [OF run] by auto
    have o: "err = None \<longrightarrow>
          (\<forall>k. (\<exists>m. AddMarker k m \<in> set calls) \<longleftrightarrow> k \<in> ?ids) \<and> fst ` set ms' = ?ids"
    proof
      assume "err = None"
      with run have "add_markers env cur (map snd ds) ([], ?removed) = (None, ms', calls)"
        by simp
      from add_markers_returns [OF this]
      have k: "fst ` set ms' = ?ids"
        and e: "\<forall>d \<in> set (map snd ds). placeable d \<longrightarrow> (\<exists>m. AddMarker (drone_id d) m \<in> set calls)"
        by simp_all
      from e have "\<forall>k. k \<in> ?ids \<longrightarrow> (\<exists>m. AddMarker k m \<in> set calls)" by blast
      with a have "\<forall>k. (\<exists>m. AddMarker k m \<in> set calls) \<longleftrightarrow> k \<in> ?ids" by blast
      with k show "(\<forall>k. (\<exists>m. AddMarker k m \<in> set calls) \<longleftrightarrow> k \<in> ?ids) \<and> fst ` set ms' = ?ids"
        by simp
    qed
    from t r a b o show ?thesis by (intro conjI)
  qed
  from off on show ?thesis by blast
qed

theorem markers_rebuilt_each_pass_witness:
  "update_markers example_env True JNull example_drones [(JStr ''d1'', example_marker)]
     = (None, [(JStr ''d1'', example_marker)],
        [RemoveMarker (JStr ''d1''), AddMarker (JStr ''d1'') example_marker])
   \<and> update_markers example_env True JNull example_drones_status_5 [(JStr ''d1'', example_marker)]
     = (Some TypeError, [], [RemoveMarker (JStr ''d1'')])
   \<and> update_markers example_env True (JStr ''d1'') example_drones_unnamed
        [(JStr ''d1'', example_marker)]
     = (Some TypeError, [],
        [RemoveMarker (JStr ''d1''),
         AddMarker (JStr ''d1'') (example_marker\<lparr>marker_selected := True, marker_popup := True\<rparr>)])
   \<and> take (length [(JStr ''d1'', example_marker)])
        [RemoveMarker (JStr ''d1''), AddMarker (JStr ''d1'') example_marker]
       = map (\<lambda>(k, m). RemoveMarker k) [(JStr ''d1'', example_marker)]
   \<and> drone_id ` {d \<in> set (map snd example_drones). placeable d} = {JStr ''d1''}"
proof -
  have run: "update_markers example_env True JNull example_drones [(JStr ''d1'', example_marker)]
     = (None, [(JStr ''d1'', example_marker)],
        [RemoveMarker (JStr ''d1''), AddMarker (JStr ''d1'') example_marker])"
    by (simp add: marker_defs eval_defs)
  have thrown: "update_markers example_env True JNull example_drones_status_5
        [(JStr ''d1'', example_marker)]
     = (Some TypeError, [], [RemoveMarker (JStr ''d1'')])"
    by (simp add: marker_defs eval_defs)
  have popup: "update_markers example_env True (JStr ''d1'') example_drones_unnamed
        [(JStr ''d1'', example_marker)]
     = (Some TypeError, [],
        [RemoveMarker (JStr ''d1''),
         AddMarker (JStr ''d1'') (example_marker\<lparr>marker_selected := True, marker_popup := True\<rparr>)])"
    by (simp add: marker_defs eval_defs)
  from markers_rebuilt_each_pass [of example_env JNull example_drones
      "[(JStr ''d1'', example_marker)]" None "[(JStr ''d1'', example_marker)]"
      "[RemoveMarker (JStr ''d1''), AddMarker (JStr ''d1'') example_marker]"] run
  have "take (length [(JStr ''d1'', example_marker)])
        [RemoveMarker (JStr ''d1''), AddMarker (JStr ''d1'') example_marker]
       = map (\<lambda>(k, m). RemoveMarker k) [(JStr ''d1'', example_marker)]
   \<and> drone_id ` {d \<in> set (map snd example_drones). placeable d} = {JStr ''d1''}"
    by simp
  with run thrown popup show ?thesis by (intro conjI) simp_all
qed

end
